theory Spec2Isabelle
  imports Complex_Main "HOL-Library.Sublist"
begin

section \<open>Python strings\<close>

text \<open>
  A Python \<^verbatim>\<open>str\<close> is a sequence of Unicode code points. It is modelled as a list of
  natural numbers, one per code point, so that the emoji of the source's literals are
  single elements, as they are for \<^verbatim>\<open>re\<close> and \<^verbatim>\<open>str.strip\<close>. ASCII text is
  written with \<open>ascii\<close>.
\<close>

type_synonym pystr = "nat list"

definition ascii :: "string \<Rightarrow> pystr" where
  "ascii s = map of_char s"

text \<open>
  The code points for which \<^verbatim>\<open>str.isspace\<close> holds, which are also the ones that
  \<^verbatim>\<open>\s\<close> matches in a \<^verbatim>\<open>str\<close> pattern.
\<close>

definition isspace :: "nat \<Rightarrow> bool" where
  "isspace c \<longleftrightarrow>
     (0x09 \<le> c \<and> c \<le> 0x0D) \<or> (0x1C \<le> c \<and> c \<le> 0x20) \<or> c = 0x85 \<or> c = 0xA0 \<or>
     c = 0x1680 \<or> (0x2000 \<le> c \<and> c \<le> 0x200A) \<or> c = 0x2028 \<or> c = 0x2029 \<or>
     c = 0x202F \<or> c = 0x205F \<or> c = 0x3000"

text \<open>\<^verbatim>\<open>s.lstrip()\<close>, \<^verbatim>\<open>s.rstrip()\<close> and \<^verbatim>\<open>s.strip()\<close> without arguments.\<close>

definition lstrip :: "pystr \<Rightarrow> pystr" where
  "lstrip s = dropWhile isspace s"

definition rstrip :: "pystr \<Rightarrow> pystr" where
  "rstrip s = rev (dropWhile isspace (rev s))"

definition strip :: "pystr \<Rightarrow> pystr" where
  "strip s = rstrip (lstrip s)"

text \<open>
  The leftmost occurrence of a literal pattern: \<open>split_first pat s\<close> is the text before
  it and the text after it, or \<open>None\<close> when \<open>pat\<close> does not occur in \<open>s\<close>. This is what
  the regular-expression engine finds for a pattern that is a literal.
\<close>

fun split_first :: "pystr \<Rightarrow> pystr \<Rightarrow> (pystr \<times> pystr) option" where
  "split_first pat [] = (if pat = [] then Some ([], []) else None)"
| "split_first pat (c # cs) =
     (if prefix pat (c # cs) then Some ([], drop (length pat) (c # cs))
      else (case split_first pat cs of
              None \<Rightarrow> None
            | Some (before, after) \<Rightarrow> Some (c # before, after)))"

lemma split_first_decomp:
  "split_first pat s = Some (b, a) \<Longrightarrow> s = b @ pat @ a"
proof (induction s arbitrary: b a)
  case Nil
  then show ?case by (simp split: if_splits)
next
  case (Cons c cs)
  show ?case
  proof (cases "prefix pat (c # cs)")
    case True
    with Cons.prems have "b = []" and "a = drop (length pat) (c # cs)" by simp_all
    moreover from True have "c # cs = pat @ drop (length pat) (c # cs)"
      by (metis append_eq_conv_conj prefix_def)
    ultimately show ?thesis by simp
  next
    case False
    with Cons.prems obtain b' where "split_first pat cs = Some (b', a)" and "b = c # b'"
      by (auto split: option.splits)
    with Cons.IH show ?thesis by simp
  qed
qed

lemma split_first_length:
  "split_first pat s = Some (b, a) \<Longrightarrow> length b + length pat + length a = length s"
  by (drule split_first_decomp) simp

lemma split_first_shorter:
  "split_first pat (drop n s) = Some (b, a) \<Longrightarrow> pat \<noteq> [] \<Longrightarrow> length a < length s"
  by (drule split_first_length) (cases pat, simp_all)

lemma split_first_leftmost:
  "split_first pat s = Some (b, a) \<Longrightarrow> s = b' @ pat @ a' \<Longrightarrow> length b \<le> length b'"
proof (induction s arbitrary: b a b')
  case Nil
  then show ?case by (simp split: if_splits)
next
  case (Cons c cs)
  show ?case
  proof (cases "prefix pat (c # cs)")
    case True
    with Cons.prems(1) have "b = []" by simp
    then show ?thesis by simp
  next
    case False
    with Cons.prems(1) obtain b0 where b0: "split_first pat cs = Some (b0, a)" "b = c # b0"
      by (auto split: option.splits)
    from False Cons.prems(2) have "b' \<noteq> []" by auto
    then obtain b1 where b1: "b' = c # b1"
      using Cons.prems(2) by (cases b') auto
    with Cons.prems(2) have "cs = b1 @ pat @ a'" by simp
    from Cons.IH [OF b0(1) this] b0(2) b1 show ?thesis by simp
  qed
qed

lemma split_first_None:
  "split_first pat s = None \<Longrightarrow> s \<noteq> b @ pat @ a"
proof (induction s arbitrary: b)
  case Nil
  then show ?case by (simp split: if_splits)
next
  case (Cons c cs)
  from Cons.prems have np: "\<not> prefix pat (c # cs)" and rec: "split_first pat cs = None"
    by (auto split: if_splits option.splits)
  show ?case
  proof (cases b)
    case Nil
    with np show ?thesis by auto
  next
    case (Cons d ds)
    with Cons.IH [OF rec, of ds] show ?thesis by auto
  qed
qed

section \<open>The response formatter (tools.py)\<close>

definition open_tag :: pystr where
  "open_tag = ascii ''<think>''"

definition close_tag :: pystr where
  "close_tag = ascii ''</think>''"

text \<open>
  \<^verbatim>\<open>re.sub(r"<think>.*?</think>", "", text, flags=re.DOTALL)\<close>: the scan goes left to
  right. Where the text starts with the opening tag and a closing tag follows it, the
  non-greedy body ends at the first such closing tag, the whole match is dropped and
  the scan goes on after it. Anywhere else the character is copied.
\<close>

function re_sub_think :: "pystr \<Rightarrow> pystr" where
  "re_sub_think [] = []"
| "re_sub_think (c # cs) =
     (if prefix open_tag (c # cs) then
        (case split_first close_tag (drop (length open_tag) (c # cs)) of
           Some (body, rest) \<Rightarrow> re_sub_think rest
         | None \<Rightarrow> c # re_sub_think cs)
      else c # re_sub_think cs)"
  by pat_completeness auto
termination
  by (relation "measure length") (auto dest: split_first_shorter simp: close_tag_def ascii_def)

definition clean_think_blocks :: "pystr \<Rightarrow> pystr" where
  "clean_think_blocks text = strip (re_sub_think text)"

text \<open>
  \<^verbatim>\<open>extract_assistant_response\<close>. The first substitution is anchored at the start of the
  stripped text: the marker is the emoji U+1F9E0, then \<^verbatim>\<open>\s*\<close>, then \<^verbatim>\<open>Response:\<close>, then
  \<^verbatim>\<open>\s*\<close>; both runs of whitespace are greedy and nothing after them can give
  characters back. The search then finds the leftmost \<^verbatim>\<open>Assistant:\<close>; group 1 is what
  follows it and the whitespace after it, up to the end of the text (\<^verbatim>\<open>re.DOTALL\<close>).
\<close>

definition brain :: nat where
  "brain = 0x1F9E0"

definition response_marker :: pystr where
  "response_marker = ascii ''Response:''"

definition assistant_delim :: pystr where
  "assistant_delim = ascii ''Assistant:''"

definition re_sub_marker :: "pystr \<Rightarrow> pystr" where
  "re_sub_marker s =
     (case s of
        [] \<Rightarrow> s
      | c # cs \<Rightarrow>
          if c = brain \<and> prefix response_marker (dropWhile isspace cs)
          then dropWhile isspace (drop (length response_marker) (dropWhile isspace cs))
          else s)"

definition extract_assistant_response :: "pystr \<Rightarrow> pystr" where
  "extract_assistant_response text =
     (let cleaned_text = re_sub_marker (strip text) in
      case split_first assistant_delim cleaned_text of
        Some (before, after) \<Rightarrow> strip (dropWhile isspace after)
      | None \<Rightarrow> strip cleaned_text)"

section \<open>Python values and exceptions\<close>

text \<open>
  The exceptions are instances of \<^verbatim>\<open>Exception\<close>: the ones the code and the library
  raise themselves (\<^verbatim>\<open>UnicodeEncodeError\<close> is what a print raises for text the console
  cannot encode), and \<open>RuntimeError\<close> with a message for whatever a collaborator raises.
\<close>

datatype exn = KeyError | TypeError | AttributeError | IndexError | ValueError
  | JSONDecodeError | UnicodeEncodeError | RuntimeError pystr

text \<open>
  What \<^verbatim>\<open>json.loads\<close> returns: \<^verbatim>\<open>None\<close>, a bool, an int, a float, a str, a list or a
  dict with string keys. A dict is the list of its items; its keys are distinct, and a
  key is looked up with \<open>map_of\<close>. A float is a rational, an infinity or not a number.
\<close>

datatype pyfloat = Finite rat | PosInf | NegInf | NaN

datatype json = JNull | JBool bool | JInt int | JFloat pyfloat | JStr pystr
  | JList "json list" | JDict "(pystr \<times> json) list"

text \<open>The truth value of \<^verbatim>\<open>if json_data:\<close>.\<close>

fun truthy :: "json \<Rightarrow> bool" where
  "truthy JNull = False"
| "truthy (JBool b) = b"
| "truthy (JInt n) = (n \<noteq> 0)"
| "truthy (JFloat f) = (f \<noteq> Finite 0)"
| "truthy (JStr s) = (s \<noteq> [])"
| "truthy (JList xs) = (xs \<noteq> [])"
| "truthy (JDict kvs) = (kvs \<noteq> [])"

text \<open>
  \<^verbatim>\<open>value[key]\<close> with a string key: a dict gives the value or raises \<^verbatim>\<open>KeyError\<close>;
  a list, a str and the other values raise \<^verbatim>\<open>TypeError\<close>.
\<close>

fun getitem :: "json \<Rightarrow> pystr \<Rightarrow> exn + json" where
  "getitem (JDict kvs) key = (case map_of kvs key of None \<Rightarrow> Inl KeyError | Some v \<Rightarrow> Inr v)"
| "getitem v key = Inl TypeError"

text \<open>\<^verbatim>\<open>value == "literal"\<close>: only a str with the same code points is equal to a str.\<close>

fun eq_str :: "json \<Rightarrow> pystr \<Rightarrow> bool" where
  "eq_str (JStr s) t = (s = t)"
| "eq_str v t = False"

text \<open>
  \<^verbatim>\<open>random.choice(seq)\<close> is \<^verbatim>\<open>seq[randbelow(len(seq))]\<close> and raises \<^verbatim>\<open>IndexError\<close> on
  an empty sequence. The generator's draw is an input \<open>r\<close>, reduced to an index below
  the length, so that every element can be chosen.
\<close>

definition random_choice :: "nat \<Rightarrow> 'a list \<Rightarrow> exn + 'a" where
  "random_choice r xs = (if xs = [] then Inl IndexError else Inr (xs ! (r mod length xs)))"

text \<open>
  \<^verbatim>\<open>template.format(text=text)\<close> for the part of the format language the templates can
  contain: literal text, the escapes \<^verbatim>\<open>{{\<close> and \<^verbatim>\<open>}}\<close>, and the replacement field
  \<^verbatim>\<open>{text}\<close>. A single \<^verbatim>\<open>}\<close> raises \<^verbatim>\<open>ValueError\<close>; any other replacement field is
  outside this part and is an error here (\<^verbatim>\<open>KeyError\<close>, as for an unknown name).
\<close>

function format_text :: "pystr \<Rightarrow> pystr \<Rightarrow> exn + pystr" where
  "format_text [] text = Inr []"
| "format_text (c # cs) text =
     (if c = 0x7B then
        (if prefix (ascii ''{'') cs then
           (case format_text (tl cs) text of Inl e \<Rightarrow> Inl e | Inr r \<Rightarrow> Inr (c # r))
         else if prefix (ascii ''text}'') cs then
           (case format_text (drop 5 cs) text of Inl e \<Rightarrow> Inl e | Inr r \<Rightarrow> Inr (text @ r))
         else Inl KeyError)
      else if c = 0x7D then
        (if prefix (ascii ''}'') cs then
           (case format_text (tl cs) text of Inl e \<Rightarrow> Inl e | Inr r \<Rightarrow> Inr (c # r))
         else Inl ValueError)
      else (case format_text cs text of Inl e \<Rightarrow> Inl e | Inr r \<Rightarrow> Inr (c # r)))"
  by pat_completeness auto
termination
  by (relation "measure (\<lambda>(t, x). length t)") auto

section \<open>The session store (memory.py)\<close>

text \<open>
  A stored message is the dict \<^verbatim>\<open>{"role": ..., "content": ...}\<close>. The store maps a user
  to the user's sessions and a session to its list of messages. Besides the store and
  the \<^verbatim>\<open>persist\<close> flag, the manager's state holds what the pickle file contains (the
  last snapshot written, if any) and how many times it was written; a write is taken to
  succeed.
\<close>

record message_entry =
  role :: pystr
  content :: pystr

type_synonym store = "pystr \<rightharpoonup> (pystr \<rightharpoonup> message_entry list)"

record memory_manager =
  memory_store :: store
  persist :: bool
  pickle_file :: "store option"
  writes :: nat

definition save_memory :: "memory_manager \<Rightarrow> memory_manager" where
  "save_memory m = m\<lparr>pickle_file := Some (memory_store m), writes := Suc (writes m)\<rparr>"

definition add_chat_user :: "memory_manager \<Rightarrow> pystr \<Rightarrow> memory_manager" where
  "add_chat_user m uid =
     (if memory_store m uid = None then
        (let m1 = m\<lparr>memory_store := (memory_store m)(uid \<mapsto> Map.empty)\<rparr>
         in if persist m1 then save_memory m1 else m1)
      else m)"

definition add_chat_session :: "memory_manager \<Rightarrow> pystr \<Rightarrow> pystr \<Rightarrow> exn + memory_manager" where
  "add_chat_session m uid sid =
     (let m1 = add_chat_user m uid in
      case memory_store m1 uid of
        None \<Rightarrow> Inl KeyError
      | Some sessions \<Rightarrow>
          if sessions sid = None then
            (let m2 = m1\<lparr>memory_store := (memory_store m1)(uid \<mapsto> sessions(sid \<mapsto> []))\<rparr>
             in Inr (if persist m2 then save_memory m2 else m2))
          else Inr m1)"

definition add_message ::
  "memory_manager \<Rightarrow> pystr \<Rightarrow> pystr \<Rightarrow> pystr \<Rightarrow> pystr \<Rightarrow> exn + memory_manager" where
  "add_message m uid sid rl ct =
     (case add_chat_session m uid sid of
        Inl e \<Rightarrow> Inl e
      | Inr m1 \<Rightarrow>
          (case memory_store m1 uid of
             None \<Rightarrow> Inl KeyError
           | Some sessions \<Rightarrow>
               (case sessions sid of
                  None \<Rightarrow> Inl KeyError
                | Some history \<Rightarrow>
                    (let m2 = m1\<lparr>memory_store := (memory_store m1)
                           (uid \<mapsto> sessions(sid \<mapsto> history @ [\<lparr>role = rl, content = ct\<rparr>]))\<rparr>
                     in Inr (if persist m2 then save_memory m2 else m2)))))"

definition get_history :: "memory_manager \<Rightarrow> pystr \<Rightarrow> pystr \<Rightarrow> message_entry list" where
  "get_history m uid sid =
     (case memory_store m uid of
        None \<Rightarrow> []
      | Some sessions \<Rightarrow> (case sessions sid of None \<Rightarrow> [] | Some history \<Rightarrow> history))"

text \<open>
  \<^verbatim>\<open>xs[start:]\<close>: a negative start counts from the end, and the start is clamped to the
  list.
\<close>

definition slice_from :: "'a list \<Rightarrow> int \<Rightarrow> 'a list" where
  "slice_from xs start =
     (let n = int (length xs);
          i = (if start < 0 then max 0 (start + n) else min start n)
      in drop (nat i) xs)"

fun join :: "pystr \<Rightarrow> pystr list \<Rightarrow> pystr" where
  "join sep [] = []"
| "join sep [x] = x"
| "join sep (x # y # ys) = x @ sep @ join sep (y # ys)"

definition format_message :: "message_entry \<Rightarrow> pystr" where
  "format_message m = role m @ ascii '': '' @ content m"

definition get_context :: "memory_manager \<Rightarrow> pystr \<Rightarrow> pystr \<Rightarrow> int option \<Rightarrow> pystr" where
  "get_context m uid sid top_k =
     (let history = get_history m uid sid in
      if history = [] then []
      else (let history = (case top_k of None \<Rightarrow> history | Some k \<Rightarrow> slice_from history (- k))
            in join (ascii ''\<newline>'') (map format_message history)))"

section \<open>The orchestration graph (langgraph_agents.py)\<close>

text \<open>
  The collaborators are opaque: each is a function from what the code passes to it to
  either the exception it raises or the value it returns. The language model is given the
  list of messages and returns the content of its reply; the speech-to-text model is
  given the video path; the vision model is given the video path and the query of the
  payload and returns a response object.
\<close>

datatype message = SystemMessage pystr | HumanMessage pystr

text \<open>
  The graph state. The keys \<^verbatim>\<open>memory\<close>, \<^verbatim>\<open>user_id\<close> and \<^verbatim>\<open>session_id\<close> are the ones
  \<^verbatim>\<open>load_memory\<close> checks, so they may be absent (\<open>None\<close>); reading an absent key
  raises \<^verbatim>\<open>KeyError\<close>. The query, the video path and the model handles are the keys
  every request of the application carries. \<^verbatim>\<open>final_response\<close>, \<^verbatim>\<open>chat_history\<close>
  and \<^verbatim>\<open>orchestrator_msg\<close> are written by a node before any node reads them. The
  memory manager is a shared object that the nodes change in place: the field holds
  its current state.
\<close>

record graph_state =
  user_id :: "pystr option"
  session_id :: "pystr option"
  user_query :: pystr
  video_path :: pystr
  final_response :: pystr
  report_path :: pystr
  chat_history :: pystr
  hug_llm :: "message list \<Rightarrow> exn + pystr"
  transcript_model :: "pystr \<Rightarrow> exn + pystr"
  vlm :: "pystr \<Rightarrow> pystr \<Rightarrow> exn + json"
  memory :: "memory_manager option"
  orchestrator_msg :: pystr

text \<open>
  What the module takes from outside the repository and from its prompt file: the
  parser \<^verbatim>\<open>json.loads\<close>, the rendering tool \<^verbatim>\<open>generate_report\<close>, the draw of the random
  generator, the two system prompts, the console, and the text \<^verbatim>\<open>str(e)\<close> of an
  exception. The console is the function \<open>stdout_write\<close>: for the text written it gives
  the exception the write raises, or \<open>None\<close> when the text is written.
\<close>

record env =
  json_loads :: "pystr \<Rightarrow> exn + json"
  generate_report :: "json \<Rightarrow> exn + pystr"
  random_draw :: nat
  supervisor_system_prompt_3 :: pystr
  report_system_prompt_1 :: pystr
  stdout_write :: "pystr \<Rightarrow> exn option"
  exn_str :: "exn \<Rightarrow> pystr"

text \<open>
  \<^verbatim>\<open>print(...)\<close> of one line: the text and the newline that ends it. The console is
  modelled in the two handlers that print inside their \<^verbatim>\<open>try\<close>, where a print that
  raises is caught and changes the response, and there also for the error message that
  the \<^verbatim>\<open>except\<close> clause prints. The other prints of the module are not modelled.
\<close>

definition print_line :: "env \<Rightarrow> pystr \<Rightarrow> exn option" where
  "print_line ev line = stdout_write ev (line @ ascii ''\<newline>'')"

definition load_memory :: "graph_state \<Rightarrow> exn + graph_state" where
  "load_memory state =
     (case (memory state, user_id state, session_id state) of
        (Some m, Some uid, Some sid) \<Rightarrow>
          (case add_chat_session m uid sid of
             Inl e \<Rightarrow> Inl e
           | Inr m1 \<Rightarrow>
               Inr (state\<lparr>memory := Some m1, chat_history := get_context m1 uid sid (Some 8)\<rparr>))
      | _ \<Rightarrow> Inl KeyError)"

definition orchestrator :: "env \<Rightarrow> graph_state \<Rightarrow> exn + graph_state" where
  "orchestrator ev state =
     (case hug_llm state
             [SystemMessage (supervisor_system_prompt_3 ev), HumanMessage (user_query state)] of
        Inl e \<Rightarrow> Inl e
      | Inr response_content \<Rightarrow>
          (let ai_msg = clean_think_blocks response_content
           in Inr (state\<lparr>final_response := ai_msg, orchestrator_msg := ai_msg\<rparr>)))"

definition orchestrator_route :: "env \<Rightarrow> graph_state \<Rightarrow> pystr" where
  "orchestrator_route ev state =
     (case json_loads ev (orchestrator_msg state) of
        Inl e \<Rightarrow> ascii ''end''
      | Inr json_data \<Rightarrow>
          if truthy json_data then
            (case getitem json_data (ascii ''Task_name'') of
               Inl e \<Rightarrow> ascii ''end''
             | Inr task_name \<Rightarrow>
                 (case getitem json_data (ascii ''agent_name'') of
                    Inl e \<Rightarrow> ascii ''end''
                  | Inr agent_name \<Rightarrow>
                      if eq_str task_name (ascii ''video_analysis'')
                         \<or> eq_str agent_name (ascii ''video_analyst'')
                      then ascii ''video_analyst''
                      else if eq_str task_name (ascii ''transcript_analysis'')
                         \<or> eq_str agent_name (ascii ''transcript_analyst'')
                      then ascii ''transcript_analyst''
                      else if eq_str task_name (ascii ''report_generation'')
                         \<or> eq_str agent_name (ascii ''report_analyst'')
                      then ascii ''report_analyst''
                      else ascii ''end''))
          else ascii ''end'')"

definition ai_responses :: "pystr list" where
  "ai_responses =
     [[0x2705] @ ascii '' Got it! Here's what I came up with: '' @ [0x1F447] @ ascii ''\<newline>{text}'',
      [0x1F4A1] @ ascii '' Sure thing! Take a look at this: '' @ [0x1F447] @ ascii ''\<newline>{text}'',
      [0x1F44D] @ ascii '' No worries '' @ [0x2014] @ ascii '' here'' @ [0x2019] @ ascii ''s my response: '' @ [0x1F447] @ ascii ''\<newline>{text}'',
      [0x2728] @ ascii '' Here'' @ [0x2019] @ ascii ''s what I'' @ [0x2019] @ ascii ''ve prepared for you: '' @ [0x1F447] @ ascii ''\<newline>{text}'',
      [0x1F916] @ ascii '' Absolutely! Here'' @ [0x2019] @ ascii ''s the result: '' @ [0x1F447] @ ascii ''\<newline>{text}'',
      [0x1F44C] @ ascii '' Sure! This is what I found: '' @ [0x1F447] @ ascii ''\<newline>{text}'',
      [0x1F680] @ ascii '' Done! Here'' @ [0x2019] @ ascii ''s my output: '' @ [0x1F447] @ ascii ''\<newline>{text}'',
      [0x1F9E0] @ ascii '' Here'' @ [0x2019] @ ascii ''s my take on that: '' @ [0x1F447] @ ascii ''\<newline>{text}'',
      [0x1F4D8] @ ascii '' Here'' @ [0x2019] @ ascii ''s the information you asked for: '' @ [0x1F447] @ ascii ''\<newline>{text}'',
      [0x2705] @ ascii '' All set! Check out my answer below: '' @ [0x1F447] @ ascii ''\<newline>{text}'']"

definition success_responses :: "pystr list" where
  "success_responses =
     [[0x2728] @ ascii '' Sure! Your request has been completed successfully '' @ [0x2705],
      [0x2705] @ ascii '' Done! Everything went smoothly '' @ [0x2728],
      [0x1F3AF] @ ascii '' Request processed successfully '' @ [0x2014] @ ascii '' all set!'',
      [0x1F44D] @ ascii '' Got it! Your request was handled perfectly '' @ [0x2705],
      [0x1F680] @ ascii '' Success! The task is now complete '' @ [0x2728],
      [0x1F31F] @ ascii '' All done '' @ [0x2014] @ ascii '' your request went through successfully '' @ [0x2705],
      [0x1F4AA] @ ascii '' Mission accomplished! Everything'' @ [0x2019] @ ascii ''s done as requested '' @ [0x2728],
      [0x1F9E9] @ ascii '' Your request was processed with no issues '' @ [0x2705],
      [0x1F389] @ ascii '' Great! Everything has been completed successfully '' @ [0x2728],
      [0x2705] @ ascii '' All set! Your request finished without any errors '' @ [0x1F31F]]"

definition apology :: pystr where
  "apology = [0x1F912] @ ascii '' Sorry, I cannot fullfill your request, a thousand apologies. '' @ [0x1F44F, 0x1F44F, 0x1F44F]"

text \<open>
  \<^verbatim>\<open>transcript_agent\<close>. The body of the \<^verbatim>\<open>try\<close> is \<open>attempt\<close>: the transcription, the
  print of the transcript, the choice of a template and its formatting; whatever one of
  them raises is the \<open>Inl\<close> of the attempt. The \<^verbatim>\<open>except\<close> clause prints the error
  message and answers with the apology; what this print raises leaves the handler.
\<close>

definition transcript_agent :: "env \<Rightarrow> graph_state \<Rightarrow> exn + graph_state" where
  "transcript_agent ev state =
     (let attempt =
        (case transcript_model state (video_path state) of
           Inl e \<Rightarrow> Inl e
         | Inr text \<Rightarrow>
             (case print_line ev (ascii ''Transcription: '' @ text) of
                Some e \<Rightarrow> Inl e
              | None \<Rightarrow>
                  (case random_choice (random_draw ev) ai_responses of
                     Inl e \<Rightarrow> Inl e
                   | Inr template \<Rightarrow> format_text template text)))
      in case attempt of
           Inr ai_response \<Rightarrow> Inr (state\<lparr>final_response := ai_response\<rparr>)
         | Inl e \<Rightarrow>
             (case print_line ev (ascii ''Error message: '' @ exn_str ev e) of
                Some e' \<Rightarrow> Inl e'
              | None \<Rightarrow> Inr (state\<lparr>final_response := apology\<rparr>)))"

text \<open>
  \<^verbatim>\<open>video_agent\<close> has the same shape. The reply is \<^verbatim>\<open>response["content"]\<close>; a content
  that is not a str makes \<^verbatim>\<open>text.strip()\<close> raise; the extracted reply is printed; all of
  this inside the \<^verbatim>\<open>try\<close>.
\<close>

definition video_agent :: "env \<Rightarrow> graph_state \<Rightarrow> exn + graph_state" where
  "video_agent ev state =
     (let attempt =
        (case vlm state (video_path state) (user_query state) of
           Inl e \<Rightarrow> Inl e
         | Inr response \<Rightarrow>
             (case getitem response (ascii ''content'') of
                Inl e \<Rightarrow> Inl e
              | Inr (JStr s) \<Rightarrow>
                  (let ai_msg = extract_assistant_response s in
                   case print_line ev ai_msg of Some e \<Rightarrow> Inl e | None \<Rightarrow> Inr ai_msg)
              | Inr _ \<Rightarrow> Inl AttributeError))
      in case attempt of
           Inr ai_response \<Rightarrow> Inr (state\<lparr>final_response := ai_response\<rparr>)
         | Inl e \<Rightarrow>
             (case print_line ev (ascii ''Error message: '' @ exn_str ev e) of
                Some e' \<Rightarrow> Inl e'
              | None \<Rightarrow> Inr (state\<lparr>final_response := apology\<rparr>)))"

definition user_query_with_history :: "pystr \<Rightarrow> pystr \<Rightarrow> pystr" where
  "user_query_with_history history query =
     ascii ''\<newline>    Based on our chat history:\<newline>    '' @ history
       @ ascii ''\<newline>    '' @ query @ ascii ''\<newline>    ''"

text \<open>
  In \<^verbatim>\<open>report_agent\<close> the call of the language model stands before the \<^verbatim>\<open>try\<close>: what
  it raises leaves the node. The \<^verbatim>\<open>try\<close> covers the parsing, the \<^verbatim>\<open>args\<close> lookup, the
  rendering and the choice of the message.
\<close>

definition report_agent :: "env \<Rightarrow> graph_state \<Rightarrow> exn + graph_state" where
  "report_agent ev state =
     (case (memory state, user_id state, session_id state) of
        (Some m, Some uid, Some sid) \<Rightarrow>
          (let history = get_context m uid sid (Some 8) in
           case hug_llm state
                  [SystemMessage (report_system_prompt_1 ev),
                   HumanMessage (user_query_with_history history (user_query state))] of
             Inl e \<Rightarrow> Inl e
           | Inr response_content \<Rightarrow>
               (let ai_msg = clean_think_blocks response_content;
                    failed = (ascii ''NA'', apology);
                    (report_file_path, ai_response) =
                      (case json_loads ev ai_msg of
                         Inl e \<Rightarrow> failed
                       | Inr function_call \<Rightarrow>
                           (case getitem function_call (ascii ''args'') of
                              Inl e \<Rightarrow> failed
                            | Inr args \<Rightarrow>
                                (case generate_report ev args of
                                   Inl e \<Rightarrow> failed
                                 | Inr path \<Rightarrow>
                                     (case random_choice (random_draw ev) success_responses of
                                        Inl e \<Rightarrow> failed
                                      | Inr r \<Rightarrow> (path, r)))))
                in Inr (state\<lparr>report_path := report_file_path,
                                final_response := ai_response\<rparr>)))
      | _ \<Rightarrow> Inl KeyError)"

definition update_memory :: "graph_state \<Rightarrow> exn + graph_state" where
  "update_memory state =
     (case (memory state, user_id state, session_id state) of
        (Some m, Some uid, Some sid) \<Rightarrow>
          (case add_message m uid sid (ascii ''Human'') (user_query state) of
             Inl e \<Rightarrow> Inl e
           | Inr m1 \<Rightarrow>
               (case add_message m1 uid sid (ascii ''AI'') (final_response state) of
                  Inl e \<Rightarrow> Inl e
                | Inr m2 \<Rightarrow> Inr (state\<lparr>memory := Some m2\<rparr>)))
      | _ \<Rightarrow> Inl KeyError)"

text \<open>
  \<^verbatim>\<open>build_graph\<close>: the edges go from the start to \<^verbatim>\<open>load_memory\<close>, on to
  \<^verbatim>\<open>orchestrator\<close>, from there by \<^verbatim>\<open>path_map\<close> of the label that
  \<^verbatim>\<open>orchestrator_route\<close> returns, and from each of the three agents to
  \<^verbatim>\<open>update_memory\<close>, where the run ends. A node that raises ends the run with the
  exception; the result then carries the state the node was given, which holds the
  memory manager as it was left.
\<close>

datatype node = Load_memory | Orchestrator | Transcript_agent | Video_agent | Report_agent
  | Update_memory

definition path_map :: "pystr \<Rightarrow> node option" where
  "path_map label =
     (if label = ascii ''transcript_analyst'' then Some Transcript_agent
      else if label = ascii ''video_analyst'' then Some Video_agent
      else if label = ascii ''report_analyst'' then Some Report_agent
      else if label = ascii ''end'' then Some Update_memory
      else None)"

fun run_node :: "env \<Rightarrow> node \<Rightarrow> graph_state \<Rightarrow> exn + graph_state" where
  "run_node ev Load_memory state = load_memory state"
| "run_node ev Orchestrator state = orchestrator ev state"
| "run_node ev Transcript_agent state = transcript_agent ev state"
| "run_node ev Video_agent state = video_agent ev state"
| "run_node ev Report_agent state = report_agent ev state"
| "run_node ev Update_memory state = update_memory state"

definition step ::
  "(graph_state \<Rightarrow> exn + graph_state) \<Rightarrow> graph_state
     \<Rightarrow> (graph_state \<Rightarrow> exn \<times> graph_state + graph_state) \<Rightarrow> exn \<times> graph_state + graph_state" where
  "step nd state continue =
     (case nd state of Inl e \<Rightarrow> Inl (e, state) | Inr state' \<Rightarrow> continue state')"

definition invoke :: "env \<Rightarrow> graph_state \<Rightarrow> exn \<times> graph_state + graph_state" where
  "invoke ev state =
     step (run_node ev Load_memory) state (\<lambda>s1.
     step (run_node ev Orchestrator) s1 (\<lambda>s2.
       case path_map (orchestrator_route ev s2) of
         None \<Rightarrow> Inl (ValueError, s2)
       | Some target \<Rightarrow>
           if target = Update_memory then step (run_node ev Update_memory) s2 Inr
           else step (run_node ev target) s2 (\<lambda>s3.
                step (run_node ev Update_memory) s3 Inr)))"

section \<open>Sample inputs\<close>

text \<open>
  Concrete inputs on which the theorems below are instantiated: an empty memory manager
  with persistence on, the values \<^verbatim>\<open>json.loads\<close> returns for a few JSON texts (any other
  text is taken not to parse), a console that writes everything, and a request as the
  application builds it.
\<close>

definition sample_memory :: memory_manager where
  "sample_memory = \<lparr>memory_store = Map.empty, persist = True, pickle_file = None, writes = 0\<rparr>"

definition sample_json_loads :: "pystr \<Rightarrow> exn + json" where
  \<open>sample_json_loads s =
     (if s = ascii ''{"Task_name": "video_analysis"}'' then
        Inr (JDict [(ascii ''Task_name'', JStr (ascii ''video_analysis''))])
      else if s = ascii ''{"Task_name": "report_generation", "agent_name": "transcript_analyst"}'' then
        Inr (JDict [(ascii ''Task_name'', JStr (ascii ''report_generation'')),
                    (ascii ''agent_name'', JStr (ascii ''transcript_analyst''))])
      else if s = ascii ''{"Task_name": "transcript_analysis", "agent_name": "video_analyst"}'' then
        Inr (JDict [(ascii ''Task_name'', JStr (ascii ''transcript_analysis'')),
                    (ascii ''agent_name'', JStr (ascii ''video_analyst''))])
      else if s = ascii ''{"Task_name": "transcript_analysis", "agent_name": "transcript_analyst"}'' then
        Inr (JDict [(ascii ''Task_name'', JStr (ascii ''transcript_analysis'')),
                    (ascii ''agent_name'', JStr (ascii ''transcript_analyst''))])
      else if s = ascii ''{"Task_name": "report_generation", "agent_name": "report_analyst"}'' then
        Inr (JDict [(ascii ''Task_name'', JStr (ascii ''report_generation'')),
                    (ascii ''agent_name'', JStr (ascii ''report_analyst''))])
      else if s = ascii ''{"Task_name": "chat", "agent_name": "report_analyst"}'' then
        Inr (JDict [(ascii ''Task_name'', JStr (ascii ''chat'')),
                    (ascii ''agent_name'', JStr (ascii ''report_analyst''))])
      else if s = ascii ''{"tool_name": "generate_file"}'' then
        Inr (JDict [(ascii ''tool_name'', JStr (ascii ''generate_file''))])
      else if s = ascii ''{"tool_name": "generate_file", "args": {"file_type": "docx"}}'' then
        Inr (JDict [(ascii ''tool_name'', JStr (ascii ''generate_file'')),
                    (ascii ''args'', JDict [(ascii ''file_type'', JStr (ascii ''docx''))])])
      else Inl JSONDecodeError)\<close>

definition sample_env :: env where
  "sample_env =
     \<lparr>json_loads = sample_json_loads,
      generate_report = (\<lambda>args. Inl ValueError),
      random_draw = 13,
      supervisor_system_prompt_3 = ascii ''supervisor'',
      report_system_prompt_1 = ascii ''report'',
      stdout_write = (\<lambda>written. None),
      exn_str = (\<lambda>e. case e of RuntimeError message \<Rightarrow> message | _ \<Rightarrow> ascii ''error'')\<rparr>"

definition sample_state :: graph_state where
  "sample_state =
     \<lparr>user_id = Some (ascii ''user1''), session_id = Some (ascii ''Session 1''),
      user_query = ascii ''Transcribe this video'', video_path = ascii ''cat.mp4'',
      final_response = [], report_path = ascii ''NA'', chat_history = [],
      hug_llm = (\<lambda>messages. Inl (RuntimeError (ascii ''inference failed''))),
      transcript_model = (\<lambda>path. Inr (ascii ''meow'')),
      vlm = (\<lambda>path query. Inl (RuntimeError (ascii ''inference failed''))),
      memory = Some sample_memory, orchestrator_msg = []\<rparr>"

definition sample_turn :: message_entry where
  "sample_turn = \<lparr>role = ascii ''Human'', content = ascii ''hi''\<rparr>"

definition sample_memory_one_turn :: memory_manager where
  "sample_memory_one_turn =
     \<lparr>memory_store = [ascii ''user1'' \<mapsto> [ascii ''Session 1'' \<mapsto> [sample_turn]]],
      persist = True, pickle_file = None, writes = 0\<rparr>"

text \<open>
  The rejection message of the supervisor prompt, a request whose classification is
  that message, a report request whose second model call raises, and a report request
  whose second model call returns an object without \<^verbatim>\<open>args\<close>.
\<close>

definition rejection_phrase :: pystr where
  "rejection_phrase =
     ascii ''Hi, please have mercy on me '' @ [0x1F972] @ ascii ''. You'' @ [0x2019]
     @ ascii ''re giving me too many tasks! I'' @ [0x2019]
     @ ascii ''m just a small local model and can only handle one task at a time ''
     @ [0x1F44F, 0x1F44F, 0x1F44F] @ ascii ''.''"

definition rejected_request :: graph_state where
  "rejected_request =
     sample_state\<lparr>user_query := ascii ''transcribe then summarize'',
                  hug_llm := (\<lambda>messages. Inr rejection_phrase)\<rparr>"

definition failing_report_request :: graph_state where
  \<open>failing_report_request =
     sample_state\<lparr>user_query := ascii ''summarise it as a pdf'',
       hug_llm := (\<lambda>messages.
          if messages = [SystemMessage (ascii ''supervisor''),
                         HumanMessage (ascii ''summarise it as a pdf'')]
          then Inr (ascii ''{"Task_name": "report_generation", "agent_name": "report_analyst"}'')
          else Inl (RuntimeError (ascii ''inference failed'')))\<rparr>\<close>

text \<open>
  A console whose encoding has only the code points up to U+00FF, and with it a request
  whose transcript is two Chinese characters and a request whose transcription raises
  with a message that holds one.
\<close>

definition narrow_stdout :: "pystr \<Rightarrow> exn option" where
  "narrow_stdout written =
     (if list_ex (\<lambda>c. 0xFF < c) written then Some UnicodeEncodeError else None)"

definition narrow_env :: env where
  "narrow_env = sample_env\<lparr>stdout_write := narrow_stdout\<rparr>"

definition chinese_transcript_request :: graph_state where
  "chinese_transcript_request =
     sample_state\<lparr>transcript_model := (\<lambda>path. Inr [0x4F60, 0x597D])\<rparr>"

definition chinese_error_request :: graph_state where
  "chinese_error_request =
     sample_state\<lparr>transcript_model :=
        (\<lambda>path. Inl (RuntimeError (ascii ''No audio stream found in video: '' @ [0x4F60]
                                       @ ascii ''.mp4'')))\<rparr>"


section \<open>The specification's words\<close>

subsection \<open>Stripping reasoning segments\<close>

text \<open>
  The words of the specification, stated without the scanning function:
  \<open>first_occurrence pat b s\<close> says that \<open>pat\<close> occurs in \<open>s\<close> right after \<open>b\<close> and nowhere
  earlier; \<open>has_block\<close> that some opening tag is followed by a closing tag;
  \<open>think_removed\<close> that every segment from an opening tag to the next closing tag is
  gone and the text outside is kept; \<open>trimmed\<close> that the result is the text without its
  leading and trailing whitespace.
\<close>

definition first_occurrence :: "pystr \<Rightarrow> pystr \<Rightarrow> pystr \<Rightarrow> bool" where
  "first_occurrence pat b s \<longleftrightarrow>
     (\<exists>a. s = b @ pat @ a) \<and> (\<forall>b' a'. s = b' @ pat @ a' \<longrightarrow> length b \<le> length b')"

definition has_block :: "pystr \<Rightarrow> bool" where
  "has_block text \<longleftrightarrow> (\<exists>pre body rest. text = pre @ open_tag @ body @ close_tag @ rest)"

inductive think_removed :: "pystr \<Rightarrow> pystr \<Rightarrow> bool" where
  no_block: "\<not> has_block text \<Longrightarrow> think_removed text text"
| block: "first_occurrence open_tag pre (pre @ open_tag @ body @ close_tag @ rest) \<Longrightarrow>
          first_occurrence close_tag body (body @ close_tag @ rest) \<Longrightarrow>
          think_removed rest out \<Longrightarrow>
          think_removed (pre @ open_tag @ body @ close_tag @ rest) (pre @ out)"

definition trimmed :: "pystr \<Rightarrow> pystr \<Rightarrow> bool" where
  "trimmed s out \<longleftrightarrow>
     (\<exists>l r. s = l @ out @ r \<and> (\<forall>c \<in> set l. isspace c) \<and> (\<forall>c \<in> set r. isspace c) \<and>
        (out = [] \<or> \<not> isspace (hd out) \<and> \<not> isspace (last out)))"

definition strip_reasoning_spec :: "pystr \<Rightarrow> pystr \<Rightarrow> bool" where
  "strip_reasoning_spec text out \<longleftrightarrow> (\<exists>mid. think_removed text mid \<and> trimmed mid out)"

text \<open>A match of the pattern at the very start of the text.\<close>

definition match_at_head :: "pystr \<Rightarrow> bool" where
  "match_at_head text \<longleftrightarrow> (\<exists>body rest. text = open_tag @ body @ close_tag @ rest)"

subsection \<open>Extracting the reply\<close>

text \<open>
  The words of the specification for \<^verbatim>\<open>extract_assistant_response\<close>. The marker is the
  emoji and \<^verbatim>\<open>Response:\<close>, with whitespace allowed before the emoji and between the two;
  \<open>marker_split text body\<close> says that \<open>text\<close> is the marker followed by \<open>body\<close>. The
  marker-stripped text is the body when the text starts with the marker and the text
  itself otherwise. The reply is the trimmed text after the first \<^verbatim>\<open>Assistant:\<close>, or
  the trimmed marker-stripped text when there is no \<^verbatim>\<open>Assistant:\<close>. \<open>padded x y\<close> says
  that \<open>x\<close> is \<open>y\<close> with whitespace around it.
\<close>

definition whitespace :: "pystr \<Rightarrow> bool" where
  "whitespace ws \<longleftrightarrow> (\<forall>c \<in> set ws. isspace c)"

definition marker_split :: "pystr \<Rightarrow> pystr \<Rightarrow> bool" where
  "marker_split text body \<longleftrightarrow>
     (\<exists>ws0 ws1. whitespace ws0 \<and> whitespace ws1 \<and>
        text = ws0 @ [brain] @ ws1 @ response_marker @ body)"

definition marker_stripped :: "pystr \<Rightarrow> pystr \<Rightarrow> bool" where
  "marker_stripped text c \<longleftrightarrow>
     marker_split text c \<or> (\<not> (\<exists>body. marker_split text body) \<and> c = text)"

definition reply_of :: "pystr \<Rightarrow> pystr \<Rightarrow> bool" where
  "reply_of c out \<longleftrightarrow>
     (\<exists>pre post. first_occurrence assistant_delim pre c \<and> c = pre @ assistant_delim @ post \<and>
        trimmed post out) \<or>
     (\<not> (\<exists>pre post. c = pre @ assistant_delim @ post) \<and> trimmed c out)"

definition extract_reply_spec :: "pystr \<Rightarrow> pystr \<Rightarrow> bool" where
  "extract_reply_spec text out \<longleftrightarrow> (\<exists>c. marker_stripped text c \<and> reply_of c out)"

definition padded :: "pystr \<Rightarrow> pystr \<Rightarrow> bool" where
  "padded x y \<longleftrightarrow> (\<exists>l r. whitespace l \<and> whitespace r \<and> x = l @ y @ r)"

subsection \<open>Routing\<close>

text \<open>
  The branches of the router in the order of the source, each with the task name and
  the agent name that select it, and the first branch that either field selects.
\<close>

definition branches :: "(pystr \<times> pystr) list" where
  "branches =
     [(ascii ''video_analysis'', ascii ''video_analyst''),
      (ascii ''transcript_analysis'', ascii ''transcript_analyst''),
      (ascii ''report_generation'', ascii ''report_analyst'')]"

definition first_matching_branch :: "json \<Rightarrow> json \<Rightarrow> pystr" where
  "first_matching_branch task_name agent_name =
     (case find (\<lambda>(task, agent). eq_str task_name task \<or> eq_str agent_name agent) branches of
        Some (task, agent) \<Rightarrow> agent
      | None \<Rightarrow> ascii ''end'')"

section \<open>Stripping reasoning segments\<close>

lemma first_occurrence_iff:
  "first_occurrence pat b s \<longleftrightarrow> (\<exists>a. split_first pat s = Some (b, a))"
proof
  assume fo: "first_occurrence pat b s"
  then obtain a where s: "s = b @ pat @ a" by (auto simp: first_occurrence_def)
  with split_first_None [of pat s b a] obtain b0 a0 where sf: "split_first pat s = Some (b0, a0)"
    by (cases "split_first pat s") auto
  from split_first_leftmost [OF sf s] have "length b0 \<le> length b" .
  moreover from fo split_first_decomp [OF sf] have "length b \<le> length b0"
    by (auto simp: first_occurrence_def)
  ultimately have "length b0 = length b" by simp
  with s split_first_decomp [OF sf] have "b0 = b" by (metis append_eq_append_conv)
  with sf show "\<exists>a. split_first pat s = Some (b, a)" by blast
next
  assume "\<exists>a. split_first pat s = Some (b, a)"
  then obtain a where sf: "split_first pat s = Some (b, a)" ..
  show "first_occurrence pat b s"
    unfolding first_occurrence_def
    using split_first_decomp [OF sf] split_first_leftmost [OF sf] by blast
qed

lemma trimmed_strip: "trimmed s (strip s)"
proof -
  let ?l = "takeWhile isspace s"
  let ?m = "dropWhile isspace s"
  let ?r = "rev (takeWhile isspace (rev ?m))"
  have m: "?m = strip s @ ?r"
    unfolding strip_def rstrip_def lstrip_def
    by (metis rev_append rev_rev_ident takeWhile_dropWhile_id)
  have "s = ?l @ strip s @ ?r" using m by (metis takeWhile_dropWhile_id)
  moreover have "\<forall>c \<in> set ?l. isspace c" by (auto dest: set_takeWhileD)
  moreover have "\<forall>c \<in> set ?r. isspace c" by (auto dest: set_takeWhileD)
  moreover have "strip s = [] \<or> \<not> isspace (hd (strip s)) \<and> \<not> isspace (last (strip s))"
  proof (cases "strip s = []")
    case False
    have "strip s = rev (dropWhile isspace (rev ?m))"
      by (simp add: strip_def rstrip_def lstrip_def)
    with False have ne: "dropWhile isspace (rev ?m) \<noteq> []" by auto
    then have "\<not> isspace (hd (dropWhile isspace (rev ?m)))" by (rule hd_dropWhile)
    then have l: "\<not> isspace (last (strip s))"
      using ne by (simp add: strip_def rstrip_def lstrip_def last_rev)
    from False m have "?m \<noteq> []" by (metis append_is_Nil_conv)
    then have "\<not> isspace (hd ?m)" by (rule hd_dropWhile)
    with m False have "\<not> isspace (hd (strip s))" by (metis hd_append2)
    with l show ?thesis by simp
  qed simp
  ultimately show ?thesis unfolding trimmed_def by blast
qed

lemma trimmed_unique: "trimmed s out \<Longrightarrow> out = strip s"
proof -
  assume "trimmed s out"
  then obtain l r where s: "s = l @ out @ r" and l: "\<forall>c \<in> set l. isspace c"
    and r: "\<forall>c \<in> set r. isspace c"
    and o: "out = [] \<or> \<not> isspace (hd out) \<and> \<not> isspace (last out)"
    unfolding trimmed_def by blast
  show ?thesis
  proof (cases "out = []")
    case True
    with s l r have "\<forall>c \<in> set s. isspace c" by auto
    then have dw: "dropWhile isspace s = []" by (metis dropWhile_eq_Nil_conv)
    show ?thesis unfolding strip_def rstrip_def lstrip_def dw True by simp
  next
    case False
    with o have h: "\<not> isspace (hd out)" and t: "\<not> isspace (last out)" by simp_all
    from l have "dropWhile isspace s = dropWhile isspace (out @ r)"
      unfolding s by (simp add: dropWhile_append2)
    also from False h have "\<dots> = out @ r" by (cases out) simp_all
    finally have ls: "lstrip s = out @ r" by (simp add: lstrip_def)
    have "dropWhile isspace (rev r @ rev out) = dropWhile isspace (rev out)"
      using r by (intro dropWhile_append2) auto
    also from False t have "\<dots> = rev out" by (cases out rule: rev_cases) simp_all
    finally show ?thesis by (simp add: strip_def rstrip_def ls)
  qed
qed

lemma open_tag_length: "length open_tag = 7"
  by (simp add: open_tag_def ascii_def)

lemma open_tag_nonempty: "open_tag \<noteq> []"
  by (simp add: open_tag_def ascii_def)

lemma prefix_drop: "prefix p s \<Longrightarrow> s = p @ drop (length p) s"
  by (metis append_eq_conv_conj prefix_def)

lemma match_at_head_iff:
  "match_at_head text \<longleftrightarrow>
     prefix open_tag text \<and> split_first close_tag (drop (length open_tag) text) \<noteq> None"
proof
  assume "match_at_head text"
  then obtain body rest where t: "text = open_tag @ body @ close_tag @ rest"
    by (auto simp: match_at_head_def)
  then have d: "drop (length open_tag) text = body @ close_tag @ rest" by simp
  have "split_first close_tag (drop (length open_tag) text) \<noteq> None"
  proof
    assume "split_first close_tag (drop (length open_tag) text) = None"
    from split_first_None [OF this, of body rest] d show False by simp
  qed
  with t show "prefix open_tag text \<and> split_first close_tag (drop (length open_tag) text) \<noteq> None"
    by simp
next
  assume a: "prefix open_tag text \<and> split_first close_tag (drop (length open_tag) text) \<noteq> None"
  then obtain body rest where
    "split_first close_tag (drop (length open_tag) text) = Some (body, rest)" by auto
  from split_first_decomp [OF this] prefix_drop [of open_tag "text"] a
  show "match_at_head text" unfolding match_at_head_def by metis
qed

declare re_sub_think.simps(2) [simp del]

lemma re_sub_think_match:
  assumes "split_first close_tag body_rest = Some (body, rest)"
  shows "re_sub_think (open_tag @ body_rest) = re_sub_think rest"
proof -
  obtain c cs where cs: "open_tag @ body_rest = c # cs"
    using open_tag_nonempty by (cases "open_tag @ body_rest") auto
  have "prefix open_tag (c # cs)" unfolding cs [symmetric] by simp
  moreover have "drop (length open_tag) (c # cs) = body_rest" unfolding cs [symmetric] by simp
  ultimately show ?thesis unfolding cs using assms by (simp add: re_sub_think.simps(2))
qed

lemma re_sub_think_no_match:
  assumes "\<not> match_at_head (c # cs)"
  shows "re_sub_think (c # cs) = c # re_sub_think cs"
  using assms unfolding match_at_head_iff
  by (auto simp: re_sub_think.simps(2) split: option.splits)

lemma has_block_Cons:
  "has_block (c # cs) \<longleftrightarrow> match_at_head (c # cs) \<or> has_block cs"
proof
  assume "has_block (c # cs)"
  then obtain pre body rest where t: "c # cs = pre @ open_tag @ body @ close_tag @ rest"
    by (auto simp: has_block_def)
  show "match_at_head (c # cs) \<or> has_block cs"
  proof (cases pre)
    case Nil
    with t show ?thesis by (auto simp: match_at_head_def)
  next
    case (Cons d ds)
    with t have "cs = ds @ open_tag @ body @ close_tag @ rest" by simp
    then show ?thesis unfolding has_block_def by blast
  qed
next
  assume "match_at_head (c # cs) \<or> has_block cs"
  then show "has_block (c # cs)"
  proof
    assume "match_at_head (c # cs)"
    then obtain body rest where "c # cs = [] @ open_tag @ body @ close_tag @ rest"
      by (auto simp: match_at_head_def)
    then show ?thesis unfolding has_block_def by blast
  next
    assume "has_block cs"
    then obtain pre body rest where "cs = pre @ open_tag @ body @ close_tag @ rest"
      by (auto simp: has_block_def)
    then have "c # cs = (c # pre) @ open_tag @ body @ close_tag @ rest" by simp
    then show ?thesis unfolding has_block_def by blast
  qed
qed

lemma has_block_Nil: "\<not> has_block []"
  using open_tag_nonempty by (simp add: has_block_def)

lemma re_sub_think_no_block: "\<not> has_block text \<Longrightarrow> re_sub_think text = text"
proof (induction "text")
  case Nil
  show ?case by simp
next
  case (Cons c cs)
  then have "\<not> match_at_head (c # cs)" and "\<not> has_block cs"
    by (simp_all add: has_block_Cons)
  with Cons.IH show ?case by (simp add: re_sub_think_no_match)
qed

lemma first_occurrence_Cons:
  assumes "first_occurrence pat (c # b) (c # s)"
  shows "first_occurrence pat b s"
  unfolding first_occurrence_def
proof (intro conjI allI impI)
  from assms show "\<exists>a. s = b @ pat @ a" by (auto simp: first_occurrence_def)
next
  fix b' a' assume "s = b' @ pat @ a'"
  then have "c # s = (c # b') @ pat @ a'" by simp
  with assms have "length (c # b) \<le> length (c # b')"
    unfolding first_occurrence_def by blast
  then show "length b \<le> length b'" by simp
qed

lemma re_sub_think_block:
  assumes "first_occurrence open_tag pre (pre @ open_tag @ body @ close_tag @ rest)"
    and "first_occurrence close_tag body (body @ close_tag @ rest)"
  shows "re_sub_think (pre @ open_tag @ body @ close_tag @ rest) = pre @ re_sub_think rest"
  using assms(1)
proof (induction pre)
  case Nil
  from assms(2) obtain a where a: "split_first close_tag (body @ close_tag @ rest) = Some (body, a)"
    by (auto simp: first_occurrence_iff)
  from split_first_decomp [OF a] have "a = rest" by simp
  with a re_sub_think_match [of "body @ close_tag @ rest" body rest] show ?case by simp
next
  case (Cons c pre)
  let ?s = "pre @ open_tag @ body @ close_tag @ rest"
  have "\<not> match_at_head (c # ?s)"
  proof
    assume "match_at_head (c # ?s)"
    then obtain b r where "c # ?s = [] @ open_tag @ (b @ close_tag @ r)"
      by (auto simp: match_at_head_def)
    with Cons.prems have "length (c # pre) \<le> length ([] :: pystr)"
      unfolding first_occurrence_def by (metis append_Cons)
    then show False by simp
  qed
  then have "re_sub_think (c # ?s) = c # re_sub_think ?s" by (rule re_sub_think_no_match)
  moreover from Cons.prems have "first_occurrence open_tag pre ?s"
    by (simp add: first_occurrence_Cons)
  ultimately show ?case using Cons.IH by simp
qed

lemma think_removed_unique: "think_removed text out \<Longrightarrow> out = re_sub_think text"
  by (induction rule: think_removed.induct)
     (simp_all add: re_sub_think_no_block re_sub_think_block)

lemma think_removed_Cons:
  assumes nm: "\<not> match_at_head (c # cs)" and tr: "think_removed cs out"
  shows "think_removed (c # cs) (c # out)"
  using tr
proof (cases rule: think_removed.cases)
  case no_block
  with nm have "\<not> has_block (c # cs)" by (simp add: has_block_Cons)
  with no_block show ?thesis by (simp add: think_removed.no_block)
next
  case (block pre body rest out')
  have "first_occurrence open_tag (c # pre) ((c # pre) @ open_tag @ body @ close_tag @ rest)"
    unfolding first_occurrence_def
  proof (intro conjI allI impI)
    show "\<exists>a. (c # pre) @ open_tag @ body @ close_tag @ rest = (c # pre) @ open_tag @ a"
      by blast
  next
    fix b' a' assume e: "(c # pre) @ open_tag @ body @ close_tag @ rest = b' @ open_tag @ a'"
    show "length (c # pre) \<le> length b'"
    proof (cases b')
      case Nil
      let ?t = "(c # pre) @ open_tag @ body @ close_tag @ rest"
      from e Nil have p: "prefix open_tag ?t" by simp
      have "drop 7 ?t = drop 7 ((c # pre) @ open_tag) @ body @ close_tag @ rest"
        by (simp add: open_tag_length)
      then have "split_first close_tag (drop (length open_tag) ?t) \<noteq> None"
        using split_first_None [of close_tag "drop 7 ?t"] by (metis append.assoc open_tag_length)
      with p have "match_at_head ?t" by (simp add: match_at_head_iff)
      with nm block(1) show ?thesis by simp
    next
      case (Cons d ds)
      with e have "pre @ open_tag @ body @ close_tag @ rest = ds @ open_tag @ a'" by simp
      with block(3) have "length pre \<le> length ds" unfolding first_occurrence_def by blast
      with Cons show ?thesis by simp
    qed
  qed
  from think_removed.block [OF this block(4) block(5)] block(1,2) show ?thesis by simp
qed

lemma think_removed_re_sub_think: "think_removed text (re_sub_think text)"
proof (induction "text" rule: re_sub_think.induct)
  case 1
  show ?case by (simp add: think_removed.no_block has_block_Nil)
next
  case (2 c cs)
  show ?case
  proof (cases "match_at_head (c # cs)")
    case True
    then obtain body rest where
      p: "prefix open_tag (c # cs)" and
      sf: "split_first close_tag (drop (length open_tag) (c # cs)) = Some (body, rest)"
      by (auto simp: match_at_head_iff)
    from "2.IH"(2) [OF p sf refl] have ih: "think_removed rest (re_sub_think rest)" .
    have t: "c # cs = [] @ open_tag @ body @ close_tag @ rest"
      using prefix_drop [OF p] split_first_decomp [OF sf] by simp
    have "first_occurrence open_tag [] ([] @ open_tag @ body @ close_tag @ rest)"
      by (auto simp: first_occurrence_def)
    moreover have "first_occurrence close_tag body (body @ close_tag @ rest)"
      using sf split_first_decomp [OF sf] by (auto simp: first_occurrence_iff)
    ultimately have "think_removed ([] @ open_tag @ body @ close_tag @ rest) ([] @ re_sub_think rest)"
      using ih by (rule think_removed.block)
    moreover have "re_sub_think (c # cs) = re_sub_think rest"
      using p sf by (simp add: re_sub_think.simps(2))
    ultimately show ?thesis using t by simp
  next
    case False
    have "think_removed cs (re_sub_think cs)"
    proof (cases "prefix open_tag (c # cs)")
      case True
      with False have "split_first close_tag (drop (length open_tag) (c # cs)) = None"
        unfolding match_at_head_iff by blast
      with True show ?thesis by (rule "2.IH"(1))
    next
      case False
      then show ?thesis by (rule "2.IH"(3))
    qed
    with False show ?thesis by (simp add: re_sub_think_no_match think_removed_Cons)
  qed
qed

lemma strip_reasoning_spec_iff:
  "strip_reasoning_spec text out \<longleftrightarrow> out = clean_think_blocks text"
  unfolding strip_reasoning_spec_def clean_think_blocks_def
  using think_removed_unique think_removed_re_sub_think trimmed_strip trimmed_unique by blast

lemma has_block_code:
  "has_block text \<longleftrightarrow>
     (case split_first open_tag text of None \<Rightarrow> False
      | Some (pre, after) \<Rightarrow> split_first close_tag after \<noteq> None)"
proof (cases "split_first open_tag text")
  case None
  then show ?thesis using split_first_None [OF None] by (auto simp: has_block_def)
next
  case (Some p)
  obtain pre after where p: "p = (pre, after)" by (cases p)
  from Some p have sf: "split_first open_tag text = Some (pre, after)" by simp
  note d = split_first_decomp [OF sf]
  show ?thesis
  proof (cases "split_first close_tag after")
    case None
    have "\<not> has_block text"
    proof
      assume "has_block text"
      then obtain pre' body rest where t: "text = pre' @ open_tag @ body @ close_tag @ rest"
        by (auto simp: has_block_def)
      from split_first_leftmost [OF sf t] have le: "length pre \<le> length pre'" .
      from d t have "pre @ open_tag @ after = pre' @ open_tag @ body @ close_tag @ rest" by simp
      then have "drop (length pre + 7) (pre' @ open_tag @ body @ close_tag @ rest) = after"
        by (metis (no_types, lifting) append.assoc append_eq_conv_conj length_append open_tag_length)
      moreover have "drop (length pre + 7) (pre' @ open_tag @ body @ close_tag @ rest)
          = drop (length pre + 7) (pre' @ open_tag) @ body @ close_tag @ rest"
        using le by (simp add: open_tag_length)
      ultimately have "after = (drop (length pre + 7) (pre' @ open_tag) @ body) @ close_tag @ rest"
        by simp
      with split_first_None [OF None] show False by blast
    qed
    with sf None show ?thesis by simp
  next
    case (Some q)
    obtain body rest where "q = (body, rest)" by (cases q)
    with Some have "after = body @ close_tag @ rest" using split_first_decomp by blast
    with d have "has_block text" unfolding has_block_def by blast
    with sf Some show ?thesis by simp
  qed
qed

text \<open>
  Claim C7. For every input, \<open>clean_think_blocks\<close> returns exactly the text that the
  specification describes: each segment from an opening \<^verbatim>\<open><think>\<close> to the next
  \<^verbatim>\<open></think>\<close> removed, everything else kept, the ends trimmed. It maps
  \<^verbatim>\<open>a<think>b</think>c\<close> to \<^verbatim>\<open>ac\<close>, and a text in which no opening tag is followed by a
  closing tag is only trimmed.
\<close>

theorem clean_think_blocks_spec:
  "(strip_reasoning_spec text out \<longleftrightarrow> out = clean_think_blocks text) \<and>
   clean_think_blocks (ascii ''a<think>b</think>c'') = ascii ''ac'' \<and>
   (\<not> has_block text \<longrightarrow> clean_think_blocks text = strip text)"
proof (intro conjI impI)
  show "strip_reasoning_spec text out \<longleftrightarrow> out = clean_think_blocks text"
    by (rule strip_reasoning_spec_iff)
  show "clean_think_blocks (ascii ''a<think>b</think>c'') = ascii ''ac''"
    by (simp add: re_sub_think.simps(2) clean_think_blocks_def strip_def lstrip_def
        rstrip_def isspace_def ascii_def open_tag_def close_tag_def)
  show "clean_think_blocks text = strip text" if "\<not> has_block text"
    using that by (simp add: clean_think_blocks_def re_sub_think_no_block)
qed

theorem clean_think_blocks_spec_witness:
  "strip_reasoning_spec (ascii '' x<think>y\<newline>z</think> w<think>q '') (ascii ''x w<think>q'') \<and>
   \<not> has_block (ascii ''<THINK>a</THINK> </think>b<think>'') \<and>
   clean_think_blocks (ascii ''<THINK>a</THINK> </think>b<think>'')
     = ascii ''<THINK>a</THINK> </think>b<think>''"
proof -
  have e: "clean_think_blocks (ascii '' x<think>y\<newline>z</think> w<think>q '') = ascii ''x w<think>q''"
    by (simp add: re_sub_think.simps(2) clean_think_blocks_def strip_def lstrip_def
        rstrip_def isspace_def ascii_def open_tag_def close_tag_def)
  have n: "\<not> has_block (ascii ''<THINK>a</THINK> </think>b<think>'')"
    by (simp add: has_block_code ascii_def open_tag_def close_tag_def)
  have s: "strip (ascii ''<THINK>a</THINK> </think>b<think>'')
      = ascii ''<THINK>a</THINK> </think>b<think>''"
    by (simp add: strip_def lstrip_def rstrip_def isspace_def ascii_def)
  from clean_think_blocks_spec [of "ascii '' x<think>y\<newline>z</think> w<think>q ''" "ascii ''x w<think>q''"]
    clean_think_blocks_spec [of "ascii ''<THINK>a</THINK> </think>b<think>''"] e n s
  show ?thesis by simp
qed

section \<open>Routing\<close>

lemma truthy_JDict: "map_of kvs key = Some v \<Longrightarrow> truthy (JDict kvs)"
  by (cases kvs) simp_all

lemma eq_str_iff: "eq_str v s \<longleftrightarrow> v = JStr s"
  by (cases v) auto

text \<open>
  Claim C10. When the classifier output parses to an object that has both fields, the
  router takes the first branch, in the order video, transcript, report, that the task
  name or the agent name selects, and ``end'' when none is selected. A task name
  \<^verbatim>\<open>transcript_analysis\<close> with an agent name \<^verbatim>\<open>video_analyst\<close> goes to the video
  branch.
\<close>

theorem orchestrator_route_first_branch:
  \<open>(json_loads ev (orchestrator_msg state) = Inr (JDict kvs) \<and>
     map_of kvs (ascii ''Task_name'') = Some task_name \<and>
     map_of kvs (ascii ''agent_name'') = Some agent_name \<longrightarrow>
       orchestrator_route ev state = first_matching_branch task_name agent_name) \<and>
    (json_loads ev (orchestrator_msg state) =
       Inr (JDict [(ascii ''Task_name'', JStr (ascii ''transcript_analysis'')),
                   (ascii ''agent_name'', JStr (ascii ''video_analyst''))]) \<longrightarrow>
       orchestrator_route ev state = ascii ''video_analyst'')\<close>
proof (intro conjI impI)
  assume a: "json_loads ev (orchestrator_msg state) = Inr (JDict kvs) \<and>
     map_of kvs (ascii ''Task_name'') = Some task_name \<and>
     map_of kvs (ascii ''agent_name'') = Some agent_name"
  then have "truthy (JDict kvs)" by (blast intro: truthy_JDict)
  with a show "orchestrator_route ev state = first_matching_branch task_name agent_name"
    unfolding orchestrator_route_def first_matching_branch_def branches_def
    by (simp del: truthy.simps)
next
  assume "json_loads ev (orchestrator_msg state) =
       Inr (JDict [(ascii ''Task_name'', JStr (ascii ''transcript_analysis'')),
                   (ascii ''agent_name'', JStr (ascii ''video_analyst''))])"
  then show "orchestrator_route ev state = ascii ''video_analyst''"
    by (simp add: orchestrator_route_def ascii_def)
qed

theorem orchestrator_route_first_branch_witness:
  \<open>orchestrator_route sample_env
      (sample_state\<lparr>orchestrator_msg :=
         ascii ''{"Task_name": "transcript_analysis", "agent_name": "video_analyst"}''\<rparr>)
     = ascii ''video_analyst'' \<and>
    first_matching_branch (JStr (ascii ''chat'')) (JStr (ascii ''report_analyst''))
     = ascii ''report_analyst'' \<and>
    orchestrator_route sample_env
      (sample_state\<lparr>orchestrator_msg :=
         ascii ''{"Task_name": "chat", "agent_name": "report_analyst"}''\<rparr>)
     = ascii ''report_analyst''\<close>
proof -
  let ?s1 = \<open>sample_state\<lparr>orchestrator_msg :=
         ascii ''{"Task_name": "transcript_analysis", "agent_name": "video_analyst"}''\<rparr>\<close>
  let ?s2 = \<open>sample_state\<lparr>orchestrator_msg :=
         ascii ''{"Task_name": "chat", "agent_name": "report_analyst"}''\<rparr>\<close>
  have l1: "json_loads sample_env (orchestrator_msg ?s1) =
       Inr (JDict [(ascii ''Task_name'', JStr (ascii ''transcript_analysis'')),
                   (ascii ''agent_name'', JStr (ascii ''video_analyst''))])"
    by (simp add: sample_env_def sample_json_loads_def ascii_def)
  have l2: "json_loads sample_env (orchestrator_msg ?s2) =
       Inr (JDict [(ascii ''Task_name'', JStr (ascii ''chat'')),
                   (ascii ''agent_name'', JStr (ascii ''report_analyst''))])"
    by (simp add: sample_env_def sample_json_loads_def ascii_def)
  have m: "map_of [(ascii ''Task_name'', JStr (ascii ''chat'')),
                   (ascii ''agent_name'', JStr (ascii ''report_analyst''))] (ascii ''Task_name'')
             = Some (JStr (ascii ''chat''))"
     "map_of [(ascii ''Task_name'', JStr (ascii ''chat'')),
                   (ascii ''agent_name'', JStr (ascii ''report_analyst''))] (ascii ''agent_name'')
             = Some (JStr (ascii ''report_analyst''))"
    by (simp_all add: ascii_def)
  have f: "first_matching_branch (JStr (ascii ''chat'')) (JStr (ascii ''report_analyst''))
     = ascii ''report_analyst''"
    by (simp add: first_matching_branch_def branches_def ascii_def)
  from orchestrator_route_first_branch [of sample_env ?s1] l1
  have "orchestrator_route sample_env ?s1 = ascii ''video_analyst''" by blast
  moreover from orchestrator_route_first_branch [of sample_env ?s2 _ "JStr (ascii ''chat'')" "JStr (ascii ''report_analyst'')"] l2 m
  have "orchestrator_route sample_env ?s2
     = first_matching_branch (JStr (ascii ''chat'')) (JStr (ascii ''report_analyst''))" by blast
  ultimately show ?thesis using f by simp
qed

text \<open>
  Claim C1, as amended. When the classifier output parses to an object that has both
  the field \<^verbatim>\<open>Task_name\<close> and the field \<^verbatim>\<open>agent_name\<close>, the router returns
  \<^verbatim>\<open>video_analyst\<close> if either field names the video task, otherwise
  \<^verbatim>\<open>transcript_analyst\<close> if either names the transcript task, otherwise
  \<^verbatim>\<open>report_analyst\<close> if either names the report task, otherwise \<^verbatim>\<open>end\<close>. For every
  other output (it does not parse, it is not an object, or it lacks one of the two
  fields) the router returns \<^verbatim>\<open>end\<close>.
\<close>

theorem orchestrator_route_cases:
  \<open>(json_loads ev (orchestrator_msg state) = Inr (JDict kvs) \<and>
     map_of kvs (ascii ''Task_name'') = Some task_name \<and>
     map_of kvs (ascii ''agent_name'') = Some agent_name \<longrightarrow>
       orchestrator_route ev state =
         (if task_name = JStr (ascii ''video_analysis'')
             \<or> agent_name = JStr (ascii ''video_analyst'') then ascii ''video_analyst''
          else if task_name = JStr (ascii ''transcript_analysis'')
             \<or> agent_name = JStr (ascii ''transcript_analyst'') then ascii ''transcript_analyst''
          else if task_name = JStr (ascii ''report_generation'')
             \<or> agent_name = JStr (ascii ''report_analyst'') then ascii ''report_analyst''
          else ascii ''end'')) \<and>
    ((\<forall>kvs. json_loads ev (orchestrator_msg state) = Inr (JDict kvs) \<longrightarrow>
         map_of kvs (ascii ''Task_name'') = None \<or> map_of kvs (ascii ''agent_name'') = None) \<longrightarrow>
       orchestrator_route ev state = ascii ''end'')\<close>
proof (intro conjI impI)
  assume a: "json_loads ev (orchestrator_msg state) = Inr (JDict kvs) \<and>
     map_of kvs (ascii ''Task_name'') = Some task_name \<and>
     map_of kvs (ascii ''agent_name'') = Some agent_name"
  then have "truthy (JDict kvs)" by (blast intro: truthy_JDict)
  with a show "orchestrator_route ev state =
         (if task_name = JStr (ascii ''video_analysis'')
             \<or> agent_name = JStr (ascii ''video_analyst'') then ascii ''video_analyst''
          else if task_name = JStr (ascii ''transcript_analysis'')
             \<or> agent_name = JStr (ascii ''transcript_analyst'') then ascii ''transcript_analyst''
          else if task_name = JStr (ascii ''report_generation'')
             \<or> agent_name = JStr (ascii ''report_analyst'') then ascii ''report_analyst''
          else ascii ''end'')"
    unfolding orchestrator_route_def by (simp del: truthy.simps add: eq_str_iff)
next
  assume n: "\<forall>kvs. json_loads ev (orchestrator_msg state) = Inr (JDict kvs) \<longrightarrow>
         map_of kvs (ascii ''Task_name'') = None \<or> map_of kvs (ascii ''agent_name'') = None"
  show "orchestrator_route ev state = ascii ''end''"
  proof (cases "json_loads ev (orchestrator_msg state)")
    case (Inl e)
    then show ?thesis by (simp add: orchestrator_route_def)
  next
    case (Inr json_data)
    show ?thesis
    proof (cases json_data)
      case (JDict kvs)
      from n Inr JDict have d: "map_of kvs (ascii ''Task_name'') = None
          \<or> map_of kvs (ascii ''agent_name'') = None" by simp
      have g: "getitem (JDict kvs) (ascii ''Task_name'') = Inl KeyError
          \<or> getitem (JDict kvs) (ascii ''agent_name'') = Inl KeyError"
        using d by auto
      show ?thesis
      proof (cases "getitem (JDict kvs) (ascii ''Task_name'')")
        case (Inl e)
        then show ?thesis
          unfolding orchestrator_route_def \<open>json_loads ev (orchestrator_msg state) = Inr json_data\<close> JDict
          by (simp del: getitem.simps truthy.simps)
      next
        case t: (Inr task_name)
        with g have "getitem (JDict kvs) (ascii ''agent_name'') = Inl KeyError" by simp
        with t show ?thesis
          unfolding orchestrator_route_def \<open>json_loads ev (orchestrator_msg state) = Inr json_data\<close> JDict
          by (simp del: getitem.simps truthy.simps)
      qed
    qed (simp_all add: Inr orchestrator_route_def)
  qed
qed

theorem orchestrator_route_cases_witness:
  \<open>orchestrator_route sample_env
      (sample_state\<lparr>orchestrator_msg :=
         ascii ''{"Task_name": "report_generation", "agent_name": "report_analyst"}''\<rparr>)
     = ascii ''report_analyst'' \<and>
    orchestrator_route sample_env
      (sample_state\<lparr>orchestrator_msg := ascii ''Hi, please have mercy on me''\<rparr>)
     = ascii ''end''\<close>
proof -
  let ?s1 = \<open>sample_state\<lparr>orchestrator_msg :=
         ascii ''{"Task_name": "report_generation", "agent_name": "report_analyst"}''\<rparr>\<close>
  let ?s2 = \<open>sample_state\<lparr>orchestrator_msg := ascii ''Hi, please have mercy on me''\<rparr>\<close>
  let ?kvs = "[(ascii ''Task_name'', JStr (ascii ''report_generation'')),
               (ascii ''agent_name'', JStr (ascii ''report_analyst''))]"
  have l1: "json_loads sample_env (orchestrator_msg ?s1) = Inr (JDict ?kvs)"
    by (simp add: sample_env_def sample_json_loads_def ascii_def)
  have m: "map_of ?kvs (ascii ''Task_name'') = Some (JStr (ascii ''report_generation''))"
     "map_of ?kvs (ascii ''agent_name'') = Some (JStr (ascii ''report_analyst''))"
    by (simp_all add: ascii_def)
  have l2: "json_loads sample_env (orchestrator_msg ?s2) = Inl JSONDecodeError"
    by (simp add: sample_env_def sample_json_loads_def ascii_def)
  from orchestrator_route_cases [of sample_env ?s1 ?kvs "JStr (ascii ''report_generation'')"
      "JStr (ascii ''report_analyst'')"] l1 m
  have "orchestrator_route sample_env ?s1 =
         (if JStr (ascii ''report_generation'') = JStr (ascii ''video_analysis'')
             \<or> JStr (ascii ''report_analyst'') = JStr (ascii ''video_analyst'') then ascii ''video_analyst''
          else if JStr (ascii ''report_generation'') = JStr (ascii ''transcript_analysis'')
             \<or> JStr (ascii ''report_analyst'') = JStr (ascii ''transcript_analyst'') then ascii ''transcript_analyst''
          else if JStr (ascii ''report_generation'') = JStr (ascii ''report_generation'')
             \<or> JStr (ascii ''report_analyst'') = JStr (ascii ''report_analyst'') then ascii ''report_analyst''
          else ascii ''end'')" by blast
  then have r1: "orchestrator_route sample_env ?s1 = ascii ''report_analyst''"
    by (simp add: ascii_def)
  from orchestrator_route_cases [of sample_env ?s2] l2
  have r2: "orchestrator_route sample_env ?s2 = ascii ''end''" by simp
  from r1 r2 show ?thesis by simp
qed

text \<open>
  Claim C1 as it was stated fails twice. An object with the recognised task name
  \<^verbatim>\<open>video_analysis\<close> and no agent name is routed to \<^verbatim>\<open>end\<close>, not to the video
  handler; and the task name \<^verbatim>\<open>report_generation\<close> beside the agent name
  \<^verbatim>\<open>transcript_analyst\<close> is routed to the transcript handler, not to the report
  handler.
\<close>

theorem orchestrator_route_counterexample:
  \<open>orchestrator_route sample_env
      (sample_state\<lparr>orchestrator_msg := ascii ''{"Task_name": "video_analysis"}''\<rparr>)
     = ascii ''end'' \<and>
    orchestrator_route sample_env
      (sample_state\<lparr>orchestrator_msg :=
         ascii ''{"Task_name": "report_generation", "agent_name": "transcript_analyst"}''\<rparr>)
     = ascii ''transcript_analyst''\<close>
  by (simp add: orchestrator_route_def sample_env_def sample_json_loads_def ascii_def)

section \<open>The session store: creation and recent context\<close>

lemma add_chat_user_present:
  "memory_store m uid = Some sessions \<Longrightarrow> add_chat_user m uid = m"
  by (simp add: add_chat_user_def)

lemma add_chat_user_absent:
  "memory_store m uid = None \<Longrightarrow> memory_store (add_chat_user m uid) = (memory_store m)(uid \<mapsto> Map.empty)"
  by (simp add: add_chat_user_def save_memory_def Let_def)

lemma add_chat_session_existing:
  "memory_store m uid = Some sessions \<Longrightarrow> sessions sid = Some turns
     \<Longrightarrow> add_chat_session m uid sid = Inr m"
  by (simp add: add_chat_session_def add_chat_user_present Let_def)

lemma add_chat_session_result:
  "\<exists>m1 sessions. add_chat_session m uid sid = Inr m1 \<and> memory_store m1 uid = Some sessions \<and>
     sessions sid = Some (get_history m uid sid)"
proof (cases "memory_store m uid")
  case None
  let ?m1 = "add_chat_user m uid"
  from None have st: "memory_store ?m1 uid = Some Map.empty"
    by (simp add: add_chat_user_absent)
  have h: "get_history m uid sid = []" using None by (simp add: get_history_def)
  show ?thesis
    unfolding add_chat_session_def Let_def st h
    by (cases "persist ?m1") (simp_all add: save_memory_def)
next
  case (Some sessions)
  then have u: "add_chat_user m uid = m" by (rule add_chat_user_present)
  show ?thesis
  proof (cases "sessions sid")
    case None
    have h: "get_history m uid sid = []" using Some None by (simp add: get_history_def)
    show ?thesis
      unfolding add_chat_session_def Let_def u h
      using Some None by (cases "persist m") (simp_all add: save_memory_def)
  next
    case (Some turns)
    with \<open>memory_store m uid = Some sessions\<close>
    have "add_chat_session m uid sid = Inr m" by (rule add_chat_session_existing)
    moreover have "get_history m uid sid = turns"
      using \<open>memory_store m uid = Some sessions\<close> Some by (simp add: get_history_def)
    ultimately show ?thesis using \<open>memory_store m uid = Some sessions\<close> Some by simp
  qed
qed

lemma add_chat_session_history:
  assumes "add_chat_session m uid sid = Inr m1"
  shows "get_history m1 u s = get_history m u s"
proof (cases "memory_store m uid")
  case None
  let ?m1 = "add_chat_user m uid"
  from None have st: "memory_store ?m1 = (memory_store m)(uid \<mapsto> Map.empty)"
    by (rule add_chat_user_absent)
  from assms have "memory_store m1 = (memory_store m)(uid \<mapsto> [sid \<mapsto> []])"
    unfolding add_chat_session_def Let_def
    by (cases "persist ?m1") (auto simp: st save_memory_def)
  with None show ?thesis by (simp add: get_history_def)
next
  case (Some sessions)
  then have u: "add_chat_user m uid = m" by (rule add_chat_user_present)
  show ?thesis
  proof (cases "sessions sid")
    case None
    from assms have "memory_store m1 = (memory_store m)(uid \<mapsto> sessions(sid \<mapsto> []))"
      unfolding add_chat_session_def Let_def u
      using Some None by (cases "persist m") (auto simp: save_memory_def)
    with Some None show ?thesis by (simp add: get_history_def)
  next
    case (Some turns)
    with \<open>memory_store m uid = Some sessions\<close> assms have "m1 = m"
      by (simp add: add_chat_session_existing)
    then show ?thesis by simp
  qed
qed

lemma get_history_update:
  "memory_store m1 = (memory_store m0)(uid \<mapsto> sessions(sid \<mapsto> h))
     \<Longrightarrow> get_history m1 uid sid = h"
  by (simp add: get_history_def)

lemma get_history_update_other:
  "memory_store m1 = (memory_store m0)(uid \<mapsto> sessions(sid \<mapsto> h))
     \<Longrightarrow> memory_store m0 uid = Some sessions \<Longrightarrow> (u, s) \<noteq> (uid, sid)
     \<Longrightarrow> get_history m1 u s = get_history m0 u s"
  by (auto simp: get_history_def)

lemma add_message_result:
  "\<exists>m1. add_message m uid sid rl ct = Inr m1 \<and>
     get_history m1 uid sid = get_history m uid sid @ [\<lparr>role = rl, content = ct\<rparr>] \<and>
     (\<forall>u s. (u, s) \<noteq> (uid, sid) \<longrightarrow> get_history m1 u s = get_history m u s)"
proof -
  from add_chat_session_result [of m uid sid] obtain m0 sessions where
    r: "add_chat_session m uid sid = Inr m0" and s: "memory_store m0 uid = Some sessions"
    and t: "sessions sid = Some (get_history m uid sid)" by blast
  let ?h = "get_history m uid sid @ [\<lparr>role = rl, content = ct\<rparr>]"
  let ?m2 = "m0\<lparr>memory_store := (memory_store m0)(uid \<mapsto> sessions(sid \<mapsto> ?h))\<rparr>"
  let ?m3 = "if persist ?m2 then save_memory ?m2 else ?m2"
  have a: "add_message m uid sid rl ct = Inr ?m3"
    by (simp add: add_message_def r s t Let_def)
  have st: "memory_store ?m3 = (memory_store m0)(uid \<mapsto> sessions(sid \<mapsto> ?h))"
    by (simp add: save_memory_def)
  have "get_history ?m3 uid sid = ?h"
    using st by (rule get_history_update)
  moreover have "get_history ?m3 u s = get_history m u s" if "(u, s) \<noteq> (uid, sid)" for u s
  proof -
    have "get_history ?m3 u s = get_history m0 u s"
      using st s that by (rule get_history_update_other)
    with add_chat_session_history [OF r] show ?thesis by simp
  qed
  ultimately show ?thesis using a by blast
qed

text \<open>
  Claim C6. \<^verbatim>\<open>add_chat_session\<close> never raises, and a second call with the same ids
  returns the manager that the first call returned: store, file and write count are the
  ones after one call. The turns of the session are what they were before the call.
  When the session already exists the call changes nothing at all, so it writes nothing.
\<close>

theorem add_chat_session_idempotent:
  "\<exists>m1. add_chat_session m uid sid = Inr m1 \<and> add_chat_session m1 uid sid = Inr m1 \<and>
        get_history m1 uid sid = get_history m uid sid \<and>
        (\<forall>sessions turns. memory_store m uid = Some sessions \<and> sessions sid = Some turns
           \<longrightarrow> m1 = m)"
proof -
  from add_chat_session_result [of m uid sid] obtain m1 sessions where
    r: "add_chat_session m uid sid = Inr m1" and s: "memory_store m1 uid = Some sessions"
    and t: "sessions sid = Some (get_history m uid sid)" by blast
  from s t have "add_chat_session m1 uid sid = Inr m1" by (rule add_chat_session_existing)
  moreover from s t have "get_history m1 uid sid = get_history m uid sid"
    by (simp add: get_history_def)
  moreover have "\<forall>sessions turns. memory_store m uid = Some sessions \<and> sessions sid = Some turns
           \<longrightarrow> m1 = m"
    using r by (auto dest: add_chat_session_existing)
  ultimately show ?thesis using r by blast
qed

theorem add_chat_session_idempotent_witness:
  "add_chat_session sample_memory_one_turn (ascii ''user1'') (ascii ''Session 1'')
     = Inr sample_memory_one_turn \<and>
   get_history sample_memory_one_turn (ascii ''user1'') (ascii ''Session 1'') = [sample_turn]"
proof -
  have s: "memory_store sample_memory_one_turn (ascii ''user1'')
      = Some [ascii ''Session 1'' \<mapsto> [sample_turn]]"
    "[ascii ''Session 1'' \<mapsto> [sample_turn]] (ascii ''Session 1'') = Some [sample_turn]"
    by (simp_all add: sample_memory_one_turn_def)
  from add_chat_session_idempotent [of sample_memory_one_turn "ascii ''user1''" "ascii ''Session 1''"]
  obtain m1 where
    m1: "add_chat_session sample_memory_one_turn (ascii ''user1'') (ascii ''Session 1'') = Inr m1"
    and same: "\<forall>sessions turns.
        memory_store sample_memory_one_turn (ascii ''user1'') = Some sessions \<and>
        sessions (ascii ''Session 1'') = Some turns \<longrightarrow> m1 = sample_memory_one_turn"
    by blast
  from same s have "m1 = sample_memory_one_turn" by blast
  with m1 show ?thesis by (simp add: get_history_def s)
qed

text \<open>
  For a window of at least one turn the slice is the last turns of the history, as many
  as the window or all of them; an absent or empty session gives the empty text.
\<close>

lemma slice_start_last: "0 < k \<Longrightarrow> nat (max 0 (int n - k)) = n - nat k"
  by arith

lemma get_context_positive_window:
  assumes "0 < k"
  shows "get_context m uid sid (Some k) =
     join (ascii ''\<newline>'')
       (map format_message
          (drop (length (get_history m uid sid) - nat k) (get_history m uid sid)))"
proof (cases "get_history m uid sid = []")
  case True
  then show ?thesis by (simp add: get_context_def)
next
  case False
  from assms have "slice_from (get_history m uid sid) (- k)
      = drop (length (get_history m uid sid) - nat k) (get_history m uid sid)"
    by (simp add: slice_from_def Let_def slice_start_last)
  with False show ?thesis by (simp add: get_context_def Let_def)
qed

lemma get_context_absent:
  "get_history m uid sid = [] \<Longrightarrow> get_context m uid sid top_k = []"
  by (simp add: get_context_def)

text \<open>
  Claim C3 at the window 0. After a human turn and an ai turn have been appended to a
  new session, \<^verbatim>\<open>get_context\<close> with \<^verbatim>\<open>top_k = 0\<close> returns both turns, where the
  last zero turns are no turn at all: \<^verbatim>\<open>history[-0:]\<close> is the whole list.
\<close>

theorem get_context_window_zero:
  "(case add_message sample_memory (ascii ''user1'') (ascii ''Session 1'')
           (ascii ''Human'') (ascii ''hi'') of
      Inl e \<Rightarrow> None
    | Inr m1 \<Rightarrow>
        (case add_message m1 (ascii ''user1'') (ascii ''Session 1'')
                (ascii ''AI'') (ascii ''hello'') of
           Inl e \<Rightarrow> None
         | Inr m2 \<Rightarrow> Some (get_context m2 (ascii ''user1'') (ascii ''Session 1'') (Some 0))))
     = Some (ascii ''Human: hi\<newline>AI: hello'')"
  by (simp add: sample_memory_def add_message_def add_chat_session_def add_chat_user_def
      save_memory_def get_context_def get_history_def slice_from_def format_message_def
      ascii_def Let_def)

section \<open>The task handlers\<close>

lemma format_text_placeholder:
  "0x7B \<notin> set pre \<Longrightarrow> 0x7D \<notin> set pre
     \<Longrightarrow> format_text (pre @ ascii ''{text}'') text = Inr (pre @ text)"
proof (induction pre)
  case Nil
  show ?case by (simp add: ascii_def)
next
  case (Cons c pre)
  then show ?case by simp
qed

lemma ai_responses_shape:
  "\<forall>template \<in> set ai_responses.
     drop (length template - 6) template = ascii ''{text}'' \<and>
     0x7B \<notin> set (take (length template - 6) template) \<and>
     0x7D \<notin> set (take (length template - 6) template)"
  by (simp add: ai_responses_def ascii_def)

lemma ai_responses_format:
  assumes "template \<in> set ai_responses"
  shows "\<exists>pre. template = pre @ ascii ''{text}'' \<and> format_text template text = Inr (pre @ text)"
proof -
  let ?pre = "take (length template - 6) template"
  from assms ai_responses_shape have d: "drop (length template - 6) template = ascii ''{text}''"
    and b: "0x7B \<notin> set ?pre" "0x7D \<notin> set ?pre" by blast+
  from d have t: "template = ?pre @ ascii ''{text}''" by (metis append_take_drop_id)
  from format_text_placeholder [OF b] have "format_text (?pre @ ascii ''{text}'') text = Inr (?pre @ text)" .
  with t show ?thesis by metis
qed

lemma ai_responses_length: "length ai_responses = 10"
  by (simp add: ai_responses_def)

lemma ai_responses_distinct: "distinct ai_responses"
  by (simp add: ai_responses_def ascii_def)

lemma random_choice_ai_responses:
  "\<exists>template \<in> set ai_responses. random_choice r ai_responses = Inr template"
proof -
  have "r mod length ai_responses < length ai_responses"
    by (simp add: ai_responses_length)
  then have "ai_responses ! (r mod length ai_responses) \<in> set ai_responses" by (rule nth_mem)
  moreover have "ai_responses \<noteq> []" using ai_responses_length by auto
  ultimately show ?thesis by (simp add: random_choice_def)
qed

lemma transcript_agent_formatted:
  assumes "transcript_model state (video_path state) = Inr transcript"
    and "print_line ev (ascii ''Transcription: '' @ transcript) = None"
    and "random_choice (random_draw ev) ai_responses = Inr template"
    and "format_text template transcript = Inr r"
  shows "transcript_agent ev state = Inr (state\<lparr>final_response := r\<rparr>)"
  using assms by (simp add: transcript_agent_def Let_def)

lemma transcript_agent_transcribe_raises:
  assumes "transcript_model state (video_path state) = Inl e"
    and "print_line ev (ascii ''Error message: '' @ exn_str ev e) = None"
  shows "transcript_agent ev state = Inr (state\<lparr>final_response := apology\<rparr>)"
  using assms by (simp add: transcript_agent_def Let_def)

lemma transcript_agent_print_raises:
  assumes "transcript_model state (video_path state) = Inr transcript"
    and "print_line ev (ascii ''Transcription: '' @ transcript) = Some e"
    and "print_line ev (ascii ''Error message: '' @ exn_str ev e) = None"
  shows "transcript_agent ev state = Inr (state\<lparr>final_response := apology\<rparr>)"
  using assms by (simp add: transcript_agent_def Let_def)

text \<open>
  Claim C9, as amended. When the speech-to-text model returns a transcript and the print
  of the transcript does not raise, the handler returns and the final response is one of
  the templates of \<open>ai_responses\<close> with the transcript in the place of its placeholder
  \<^verbatim>\<open>{text}\<close>; there are exactly ten templates, all different. When the model raises, or
  the print of the transcript raises, and the print of the error message does not raise,
  the handler returns and the final response is the apology.
\<close>

theorem transcript_agent_response:
  "(transcript_model state (video_path state) = Inr text \<and>
    print_line ev (ascii ''Transcription: '' @ text) = None \<longrightarrow>
      (\<exists>template \<in> set ai_responses. \<exists>pre.
         template = pre @ ascii ''{text}'' \<and>
         transcript_agent ev state = Inr (state\<lparr>final_response := pre @ text\<rparr>))) \<and>
   ((transcript_model state (video_path state) = Inl e \<or>
     (\<exists>transcript. transcript_model state (video_path state) = Inr transcript \<and>
        print_line ev (ascii ''Transcription: '' @ transcript) = Some e)) \<and>
    print_line ev (ascii ''Error message: '' @ exn_str ev e) = None \<longrightarrow>
      transcript_agent ev state = Inr (state\<lparr>final_response := apology\<rparr>)) \<and>
   length ai_responses = 10 \<and> distinct ai_responses"
proof (intro conjI impI)
  assume a: "transcript_model state (video_path state) = Inr text \<and>
    print_line ev (ascii ''Transcription: '' @ text) = None"
  from random_choice_ai_responses obtain template where
    t: "template \<in> set ai_responses"
    and c: "random_choice (random_draw ev) ai_responses = Inr template" by blast
  from ai_responses_format [OF t] obtain pre where
    p: "template = pre @ ascii ''{text}''"
    and f: "format_text template text = Inr (pre @ text)"
    by blast
  from a c f have "transcript_agent ev state = Inr (state\<lparr>final_response := pre @ text\<rparr>)"
    by (intro transcript_agent_formatted) simp_all
  with t p show "\<exists>template \<in> set ai_responses. \<exists>pre.
         template = pre @ ascii ''{text}'' \<and>
         transcript_agent ev state = Inr (state\<lparr>final_response := pre @ text\<rparr>)"
    by blast
next
  assume "(transcript_model state (video_path state) = Inl e \<or>
     (\<exists>transcript. transcript_model state (video_path state) = Inr transcript \<and>
        print_line ev (ascii ''Transcription: '' @ transcript) = Some e)) \<and>
    print_line ev (ascii ''Error message: '' @ exn_str ev e) = None"
  then show "transcript_agent ev state = Inr (state\<lparr>final_response := apology\<rparr>)"
    using transcript_agent_transcribe_raises transcript_agent_print_raises by blast
next
  show "length ai_responses = 10" by (rule ai_responses_length)
  show "distinct ai_responses" by (rule ai_responses_distinct)
qed

theorem transcript_agent_response_witness:
  "(\<exists>template \<in> set ai_responses. \<exists>pre.
      template = pre @ ascii ''{text}'' \<and>
      map_sum id final_response (transcript_agent sample_env sample_state)
        = Inr (pre @ ascii ''meow'')) \<and>
   map_sum id final_response (transcript_agent sample_env sample_state)
     = Inr ([0x2728] @ ascii '' Here'' @ [0x2019] @ ascii ''s what I'' @ [0x2019]
            @ ascii ''ve prepared for you: '' @ [0x1F447] @ ascii ''\<newline>meow'') \<and>
   map_sum id final_response
     (transcript_agent sample_env
        (sample_state\<lparr>transcript_model := (\<lambda>path. Inl ValueError)\<rparr>))
     = Inr apology \<and>
   map_sum id final_response (transcript_agent narrow_env chinese_transcript_request)
     = Inr apology"
proof -
  let ?failing = "sample_state\<lparr>transcript_model := (\<lambda>path. Inl ValueError)\<rparr>"
  have ok: "print_line sample_env line = None" for line
    by (simp add: print_line_def sample_env_def)
  have m: "transcript_model sample_state (video_path sample_state) = Inr (ascii ''meow'')"
    by (simp add: sample_state_def)
  from transcript_agent_response [of sample_state "ascii ''meow''" sample_env] m ok
  obtain template pre where "template \<in> set ai_responses"
    and "template = pre @ ascii ''{text}''"
    and "transcript_agent sample_env sample_state
        = Inr (sample_state\<lparr>final_response := pre @ ascii ''meow''\<rparr>)"
    by blast
  then have "\<exists>template \<in> set ai_responses. \<exists>pre.
      template = pre @ ascii ''{text}'' \<and>
      map_sum id final_response (transcript_agent sample_env sample_state)
        = Inr (pre @ ascii ''meow'')"
    by auto
  moreover
  let ?template = "[0x2728] @ ascii '' Here'' @ [0x2019] @ ascii ''s what I'' @ [0x2019]
            @ ascii ''ve prepared for you: '' @ [0x1F447] @ ascii ''\<newline>{text}''"
  have c: "random_choice (random_draw sample_env) ai_responses = Inr ?template"
    by (simp add: random_choice_def sample_env_def ai_responses_def)
  have f: "format_text ?template (ascii ''meow'')
     = Inr ([0x2728] @ ascii '' Here'' @ [0x2019] @ ascii ''s what I'' @ [0x2019]
            @ ascii ''ve prepared for you: '' @ [0x1F447] @ ascii ''\<newline>meow'')"
    by (simp add: ascii_def)
  have "map_sum id final_response (transcript_agent sample_env sample_state)
     = Inr ([0x2728] @ ascii '' Here'' @ [0x2019] @ ascii ''s what I'' @ [0x2019]
            @ ascii ''ve prepared for you: '' @ [0x1F447] @ ascii ''\<newline>meow'')"
    unfolding transcript_agent_formatted [OF m ok c f] by simp
  moreover have "transcript_model ?failing (video_path ?failing) = Inl ValueError" by simp
  with transcript_agent_response [of ?failing _ sample_env ValueError] ok
  have "transcript_agent sample_env ?failing = Inr (?failing\<lparr>final_response := apology\<rparr>)"
    by blast
  then have "map_sum id final_response (transcript_agent sample_env ?failing) = Inr apology"
    by simp
  moreover have "map_sum id final_response (transcript_agent narrow_env chinese_transcript_request)
     = Inr apology"
  proof -
    have t: "transcript_model chinese_transcript_request (video_path chinese_transcript_request)
        = Inr [0x4F60, 0x597D]"
      by (simp add: chinese_transcript_request_def)
    have p: "print_line narrow_env (ascii ''Transcription: '' @ [0x4F60, 0x597D])
        = Some UnicodeEncodeError"
      by (simp add: print_line_def narrow_env_def narrow_stdout_def ascii_def)
    have q: "print_line narrow_env (ascii ''Error message: '' @ exn_str narrow_env UnicodeEncodeError)
        = None"
      by (simp add: print_line_def narrow_env_def narrow_stdout_def sample_env_def ascii_def)
    from transcript_agent_response [of chinese_transcript_request _ narrow_env UnicodeEncodeError]
      t p q
    have "transcript_agent narrow_env chinese_transcript_request
        = Inr (chinese_transcript_request\<lparr>final_response := apology\<rparr>)"
      by blast
    then show ?thesis by simp
  qed
  ultimately show ?thesis by simp
qed

text \<open>
  Claim C9 as it was stated fails twice on a console that cannot encode Chinese
  characters. The speech-to-text model returns a transcript of two such characters, the
  print of the transcript raises inside the \<^verbatim>\<open>try\<close>, and the final response is the
  apology, not a template. And when the model raises with a message that holds such a
  character, the print of the error message raises in the \<^verbatim>\<open>except\<close> clause and that
  exception leaves the handler.
\<close>

theorem transcript_agent_print_counterexample:
  "map_sum id final_response (transcript_agent narrow_env chinese_transcript_request)
     = Inr apology \<and>
   map_sum id final_response (transcript_agent narrow_env chinese_error_request)
     = Inl UnicodeEncodeError"
  by (simp add: transcript_agent_def print_line_def narrow_env_def narrow_stdout_def
      sample_env_def chinese_transcript_request_def chinese_error_request_def
      sample_state_def Let_def ascii_def)



section \<open>The graph run\<close>

text \<open>
  The router only returns labels that \<open>path_map\<close> knows, so the run never stops at the
  conditional edge for want of a target.
\<close>

lemma orchestrator_route_labels:
  "orchestrator_route ev state = ascii ''video_analyst'' \<or>
   orchestrator_route ev state = ascii ''transcript_analyst'' \<or>
   orchestrator_route ev state = ascii ''report_analyst'' \<or>
   orchestrator_route ev state = ascii ''end''"
  unfolding orchestrator_route_def
  by (simp split: sum.split)

lemma path_map_orchestrator_route: "path_map (orchestrator_route ev state) \<noteq> None"
  using orchestrator_route_labels [of ev state] by (auto simp: path_map_def)

lemma update_memory_appends:
  assumes "memory state = Some m" and "user_id state = Some uid" and "session_id state = Some sid"
  shows "\<exists>m'. update_memory state = Inr (state\<lparr>memory := Some m'\<rparr>) \<and>
     get_history m' uid sid =
       get_history m uid sid @ [\<lparr>role = ascii ''Human'', content = user_query state\<rparr>,
                                \<lparr>role = ascii ''AI'', content = final_response state\<rparr>] \<and>
     (\<forall>u s. (u, s) \<noteq> (uid, sid) \<longrightarrow> get_history m' u s = get_history m u s)"
proof -
  from add_message_result [of m uid sid "ascii ''Human''" "user_query state"] obtain m1 where
    a1: "add_message m uid sid (ascii ''Human'') (user_query state) = Inr m1"
    and h1: "get_history m1 uid sid =
       get_history m uid sid @ [\<lparr>role = ascii ''Human'', content = user_query state\<rparr>]"
    and o1: "\<forall>u s. (u, s) \<noteq> (uid, sid) \<longrightarrow> get_history m1 u s = get_history m u s"
    by blast
  from add_message_result [of m1 uid sid "ascii ''AI''" "final_response state"] obtain m2 where
    a2: "add_message m1 uid sid (ascii ''AI'') (final_response state) = Inr m2"
    and h2: "get_history m2 uid sid =
       get_history m1 uid sid @ [\<lparr>role = ascii ''AI'', content = final_response state\<rparr>]"
    and o2: "\<forall>u s. (u, s) \<noteq> (uid, sid) \<longrightarrow> get_history m2 u s = get_history m1 u s"
    by blast
  have "update_memory state = Inr (state\<lparr>memory := Some m2\<rparr>)"
    by (simp add: update_memory_def assms a1 a2)
  moreover from h1 h2 have "get_history m2 uid sid =
       get_history m uid sid @ [\<lparr>role = ascii ''Human'', content = user_query state\<rparr>,
                                \<lparr>role = ascii ''AI'', content = final_response state\<rparr>]"
    by simp
  moreover from o1 o2 have
    "\<forall>u s. (u, s) \<noteq> (uid, sid) \<longrightarrow> get_history m2 u s = get_history m u s" by simp
  ultimately show ?thesis by blast
qed

lemma load_memory_Inr:
  assumes "load_memory state = Inr s1"
  obtains m uid sid m1 where "memory state = Some m" and "user_id state = Some uid"
    and "session_id state = Some sid" and "add_chat_session m uid sid = Inr m1"
    and "s1 = state\<lparr>memory := Some m1, chat_history := get_context m1 uid sid (Some 8)\<rparr>"
  using assms unfolding load_memory_def
  by (auto split: option.splits sum.splits)

lemma orchestrator_Inr:
  assumes "orchestrator ev s1 = Inr s2"
  obtains response_content where
    "hug_llm s1 [SystemMessage (supervisor_system_prompt_3 ev), HumanMessage (user_query s1)]
       = Inr response_content"
    and "s2 = s1\<lparr>final_response := clean_think_blocks response_content,
                orchestrator_msg := clean_think_blocks response_content\<rparr>"
  using assms unfolding orchestrator_def Let_def
  by (auto split: sum.splits)

lemma transcript_agent_frame:
  "transcript_agent ev s2 = Inr s3 \<Longrightarrow>
     memory s3 = memory s2 \<and> user_id s3 = user_id s2 \<and> session_id s3 = session_id s2 \<and>
     user_query s3 = user_query s2 \<and> orchestrator_msg s3 = orchestrator_msg s2"
  unfolding transcript_agent_def Let_def
  by (auto split: sum.splits option.splits)

lemma video_agent_frame:
  "video_agent ev s2 = Inr s3 \<Longrightarrow>
     memory s3 = memory s2 \<and> user_id s3 = user_id s2 \<and> session_id s3 = session_id s2 \<and>
     user_query s3 = user_query s2 \<and> orchestrator_msg s3 = orchestrator_msg s2"
  unfolding video_agent_def Let_def
  by (auto split: sum.splits option.splits json.splits)

lemma report_agent_frame:
  "report_agent ev s2 = Inr s3 \<Longrightarrow>
     memory s3 = memory s2 \<and> user_id s3 = user_id s2 \<and> session_id s3 = session_id s2 \<and>
     user_query s3 = user_query s2 \<and> orchestrator_msg s3 = orchestrator_msg s2"
  unfolding report_agent_def Let_def
  by (auto split: option.splits sum.splits prod.splits)

lemma agent_frame:
  assumes "run_node ev target s2 = Inr s3"
    and "target = Transcript_agent \<or> target = Video_agent \<or> target = Report_agent"
  shows "memory s3 = memory s2 \<and> user_id s3 = user_id s2 \<and> session_id s3 = session_id s2 \<and>
     user_query s3 = user_query s2 \<and> orchestrator_msg s3 = orchestrator_msg s2"
  using assms transcript_agent_frame video_agent_frame report_agent_frame by auto

lemma path_map_targets:
  "path_map label = Some target \<Longrightarrow>
     target = Update_memory \<and> label = ascii ''end'' \<or>
     target \<noteq> Update_memory \<and> label \<noteq> ascii ''end'' \<and>
       (target = Transcript_agent \<or> target = Video_agent \<or> target = Report_agent)"
  by (auto simp: path_map_def ascii_def split: if_splits)

lemma orchestrator_route_msg:
  "orchestrator_msg s = orchestrator_msg s' \<Longrightarrow> orchestrator_route ev s = orchestrator_route ev s'"
  by (simp add: orchestrator_route_def)

lemma invoke_Inr:
  assumes "invoke ev state = Inr final"
  obtains s1 s2 s3 target where "load_memory state = Inr s1" and "orchestrator ev s1 = Inr s2"
    and "path_map (orchestrator_route ev s2) = Some target"
    and "target = Update_memory \<and> s3 = s2 \<or> target \<noteq> Update_memory \<and> run_node ev target s2 = Inr s3"
    and "update_memory s3 = Inr final"
  using assms unfolding invoke_def step_def
  by (auto split: sum.splits option.splits if_splits)

text \<open>
  Claim C4. \<^verbatim>\<open>update_memory\<close>, run on a state that has the memory and both ids, never
  raises and appends to the session a human turn with the query and then an ai turn
  with the final response. Every run of the graph that returns has gone through it: the
  session then holds its earlier turns followed by exactly these two, and on the
  rejection path, where the router answers \<^verbatim>\<open>end\<close>, the final response is the
  classifier's own text.
\<close>

theorem invoke_appends_two_turns:
  "(memory state = Some m \<and> user_id state = Some uid \<and> session_id state = Some sid \<longrightarrow>
      (\<exists>m'. update_memory state = Inr (state\<lparr>memory := Some m'\<rparr>) \<and>
         get_history m' uid sid =
           get_history m uid sid @ [\<lparr>role = ascii ''Human'', content = user_query state\<rparr>,
                                    \<lparr>role = ascii ''AI'', content = final_response state\<rparr>])) \<and>
   (invoke ev state = Inr final \<longrightarrow>
      (\<exists>m uid sid m' response_content.
         memory state = Some m \<and> user_id state = Some uid \<and> session_id state = Some sid \<and>
         memory final = Some m' \<and>
         get_history m' uid sid =
           get_history m uid sid @ [\<lparr>role = ascii ''Human'', content = user_query state\<rparr>,
                                    \<lparr>role = ascii ''AI'', content = final_response final\<rparr>] \<and>
         hug_llm state [SystemMessage (supervisor_system_prompt_3 ev),
                        HumanMessage (user_query state)] = Inr response_content \<and>
         (orchestrator_route ev final = ascii ''end'' \<longrightarrow>
            final_response final = clean_think_blocks response_content)))"
proof (intro conjI impI)
  assume "memory state = Some m \<and> user_id state = Some uid \<and> session_id state = Some sid"
  then show "\<exists>m'. update_memory state = Inr (state\<lparr>memory := Some m'\<rparr>) \<and>
         get_history m' uid sid =
           get_history m uid sid @ [\<lparr>role = ascii ''Human'', content = user_query state\<rparr>,
                                    \<lparr>role = ascii ''AI'', content = final_response state\<rparr>]"
    using update_memory_appends [of state m uid sid] by blast
next
  assume "invoke ev state = Inr final"
  then obtain s1 s2 s3 target where l: "load_memory state = Inr s1"
    and o: "orchestrator ev s1 = Inr s2"
    and p: "path_map (orchestrator_route ev s2) = Some target"
    and t: "target = Update_memory \<and> s3 = s2
              \<or> target \<noteq> Update_memory \<and> run_node ev target s2 = Inr s3"
    and u: "update_memory s3 = Inr final"
    by (rule invoke_Inr)
  from l obtain m uid sid m1 where ids: "memory state = Some m" "user_id state = Some uid"
    "session_id state = Some sid" and c: "add_chat_session m uid sid = Inr m1"
    and s1: "s1 = state\<lparr>memory := Some m1, chat_history := get_context m1 uid sid (Some 8)\<rparr>"
    by (rule load_memory_Inr)
  from o obtain response_content where
    llm: "hug_llm s1 [SystemMessage (supervisor_system_prompt_3 ev), HumanMessage (user_query s1)]
       = Inr response_content"
    and s2: "s2 = s1\<lparr>final_response := clean_think_blocks response_content,
                orchestrator_msg := clean_think_blocks response_content\<rparr>"
    by (rule orchestrator_Inr)
  from path_map_targets [OF p] t have frame:
    "memory s3 = memory s2 \<and> user_id s3 = user_id s2 \<and> session_id s3 = session_id s2 \<and>
     user_query s3 = user_query s2 \<and> orchestrator_msg s3 = orchestrator_msg s2"
    using agent_frame [of ev target s2 s3] by auto
  with s1 s2 have ids3: "memory s3 = Some m1" "user_id s3 = Some uid" "session_id s3 = Some sid"
    and q3: "user_query s3 = user_query state"
    and msg3: "orchestrator_msg s3 = orchestrator_msg s2"
    using ids by simp_all
  from update_memory_appends [OF ids3] u obtain m' where
    f: "final = s3\<lparr>memory := Some m'\<rparr>"
    and h: "get_history m' uid sid =
       get_history m1 uid sid @ [\<lparr>role = ascii ''Human'', content = user_query s3\<rparr>,
                                 \<lparr>role = ascii ''AI'', content = final_response s3\<rparr>]"
    by auto
  from add_chat_session_history [OF c] have "get_history m1 uid sid = get_history m uid sid" .
  with h q3 f have hist: "get_history m' uid sid =
       get_history m uid sid @ [\<lparr>role = ascii ''Human'', content = user_query state\<rparr>,
                                \<lparr>role = ascii ''AI'', content = final_response final\<rparr>]"
    by simp
  from llm s1 have llm0: "hug_llm state [SystemMessage (supervisor_system_prompt_3 ev),
                        HumanMessage (user_query state)] = Inr response_content"
    by simp
  have rej: "final_response final = clean_think_blocks response_content"
    if e: "orchestrator_route ev final = ascii ''end''"
  proof -
    from f msg3 have "orchestrator_msg final = orchestrator_msg s2" by simp
    then have "orchestrator_route ev final = orchestrator_route ev s2"
      by (rule orchestrator_route_msg)
    with e p have "path_map (ascii ''end'') = Some target" by simp
    then have "target = Update_memory" by (simp add: path_map_def ascii_def)
    with t have "s3 = s2" by simp
    with f s2 show ?thesis by simp
  qed
  from ids f hist llm0 rej
  show "\<exists>m uid sid m' response_content.
         memory state = Some m \<and> user_id state = Some uid \<and> session_id state = Some sid \<and>
         memory final = Some m' \<and>
         get_history m' uid sid =
           get_history m uid sid @ [\<lparr>role = ascii ''Human'', content = user_query state\<rparr>,
                                    \<lparr>role = ascii ''AI'', content = final_response final\<rparr>] \<and>
         hug_llm state [SystemMessage (supervisor_system_prompt_3 ev),
                        HumanMessage (user_query state)] = Inr response_content \<and>
         (orchestrator_route ev final = ascii ''end'' \<longrightarrow>
            final_response final = clean_think_blocks response_content)"
    by auto
qed

lemma rejected_request_run:
  "\<exists>final. invoke sample_env rejected_request = Inr final \<and>
     final_response final = rejection_phrase \<and> orchestrator_msg final = rejection_phrase"
proof -
  have c: "clean_think_blocks rejection_phrase = rejection_phrase"
    by (simp add: rejection_phrase_def re_sub_think.simps(2) clean_think_blocks_def strip_def
        lstrip_def rstrip_def isspace_def ascii_def open_tag_def close_tag_def)
  have p: "sample_json_loads rejection_phrase = Inl JSONDecodeError"
    by (simp add: sample_json_loads_def rejection_phrase_def ascii_def)
  show ?thesis
    by (simp add: invoke_def step_def load_memory_def orchestrator_def orchestrator_route_def
        update_memory_def path_map_def add_message_def add_chat_session_def add_chat_user_def
        save_memory_def rejected_request_def sample_state_def sample_env_def sample_memory_def
        c p Let_def ascii_def)
qed

theorem invoke_appends_two_turns_witness:
  "map_sum fst
     (\<lambda>s. (final_response s,
           map_option (\<lambda>m. get_history m (ascii ''user1'') (ascii ''Session 1'')) (memory s)))
     (invoke sample_env rejected_request)
   = Inr (rejection_phrase,
          Some [\<lparr>role = ascii ''Human'', content = ascii ''transcribe then summarize''\<rparr>,
                \<lparr>role = ascii ''AI'', content = rejection_phrase\<rparr>])"
proof -
  from rejected_request_run obtain final where
    r: "invoke sample_env rejected_request = Inr final"
    and f: "final_response final = rejection_phrase" by blast
  have ids: "memory rejected_request = Some sample_memory"
    "user_id rejected_request = Some (ascii ''user1'')"
    "session_id rejected_request = Some (ascii ''Session 1'')"
    "user_query rejected_request = ascii ''transcribe then summarize''"
    by (simp_all add: rejected_request_def sample_state_def)
  have e: "get_history sample_memory (ascii ''user1'') (ascii ''Session 1'') = []"
    by (simp add: get_history_def sample_memory_def)
  from invoke_appends_two_turns [of rejected_request _ _ _ sample_env final] r
  obtain m uid sid m' where "memory rejected_request = Some m"
    "user_id rejected_request = Some uid" "session_id rejected_request = Some sid"
    "memory final = Some m'"
    "get_history m' uid sid =
       get_history m uid sid @ [\<lparr>role = ascii ''Human'', content = user_query rejected_request\<rparr>,
                                \<lparr>role = ascii ''AI'', content = final_response final\<rparr>]"
    by blast
  with ids e f have "memory final = Some m'"
    and "get_history m' (ascii ''user1'') (ascii ''Session 1'') =
       [\<lparr>role = ascii ''Human'', content = ascii ''transcribe then summarize''\<rparr>,
        \<lparr>role = ascii ''AI'', content = rejection_phrase\<rparr>]"
    by simp_all
  with r f show ?thesis by simp
qed

text \<open>
  Claim C2 on the report path. The classifier selects the report handler and the
  handler's own call of the language model raises. The run ends with that exception:
  there is no final response, and the session has no turn.
\<close>

theorem report_agent_model_call_raises:
  "map_sum
     (\<lambda>(e, s). (e, map_option (\<lambda>m. get_history m (ascii ''user1'') (ascii ''Session 1'')) (memory s)))
     final_response
     (invoke sample_env failing_report_request)
   = Inl (RuntimeError (ascii ''inference failed''), Some [])"
proof -
  let ?json = \<open>ascii ''{"Task_name": "report_generation", "agent_name": "report_analyst"}''\<close>
  let ?uid = "ascii ''user1''" and ?sid = "ascii ''Session 1''"
  define m1 where "m1 = \<lparr>memory_store = [?uid \<mapsto> [?sid \<mapsto> []]], persist = True,
      pickle_file = Some [?uid \<mapsto> [?sid \<mapsto> []]], writes = 2\<rparr>"
  define s1 where "s1 = failing_report_request\<lparr>memory := Some m1, chat_history := []\<rparr>"
  define s2 where "s2 = s1\<lparr>final_response := ?json, orchestrator_msg := ?json\<rparr>"
  have a: "add_chat_session sample_memory ?uid ?sid = Inr m1"
    by (simp add: add_chat_session_def add_chat_user_def save_memory_def sample_memory_def
        m1_def Let_def)
  have h: "get_history m1 ?uid ?sid = []"
    by (simp add: get_history_def m1_def)
  then have x: "get_context m1 ?uid ?sid (Some 8) = []"
    by (simp add: get_context_def)
  have l: "load_memory failing_report_request = Inr s1"
    by (simp add: load_memory_def failing_report_request_def sample_state_def a x s1_def)
  have q: "hug_llm s1 [SystemMessage (supervisor_system_prompt_3 sample_env),
                       HumanMessage (user_query s1)] = Inr ?json"
    by (simp add: s1_def failing_report_request_def sample_env_def)
  have c: "clean_think_blocks ?json = ?json"
    by (simp add: re_sub_think.simps(2) clean_think_blocks_def strip_def
        lstrip_def rstrip_def isspace_def ascii_def open_tag_def close_tag_def)
  have o: "orchestrator sample_env s1 = Inr s2"
    by (simp add: orchestrator_def q c s2_def Let_def)
  have p: "json_loads sample_env (orchestrator_msg s2)
      = Inr (JDict [(ascii ''Task_name'', JStr (ascii ''report_generation'')),
                    (ascii ''agent_name'', JStr (ascii ''report_analyst''))])"
    by (simp add: s2_def sample_env_def sample_json_loads_def ascii_def)
  have r: "orchestrator_route sample_env s2 = ascii ''report_analyst''"
    unfolding orchestrator_route_def p by (simp add: ascii_def)
  have t: "path_map (ascii ''report_analyst'') = Some Report_agent"
    by (simp add: path_map_def ascii_def)
  have ids: "memory s2 = Some m1" "user_id s2 = Some ?uid" "session_id s2 = Some ?sid"
    by (simp_all add: s2_def s1_def failing_report_request_def sample_state_def)
  have q2: "hug_llm s2 [SystemMessage (report_system_prompt_1 sample_env), HumanMessage u]
      = Inl (RuntimeError (ascii ''inference failed''))" for u
    by (simp add: s2_def s1_def failing_report_request_def sample_env_def ascii_def)
  have g: "report_agent sample_env s2 = Inl (RuntimeError (ascii ''inference failed''))"
    by (simp add: report_agent_def ids q2 Let_def)
  have "invoke sample_env failing_report_request
      = Inl (RuntimeError (ascii ''inference failed''), s2)"
    by (simp add: invoke_def step_def l o r t g)
  with ids h show ?thesis by simp
qed

section \<open>Extracting the reply\<close>

lemma trimmed_iff: "trimmed s out \<longleftrightarrow> out = strip s"
  using trimmed_strip trimmed_unique by blast

lemma padded_strip: "padded s (strip s)"
  using trimmed_strip [of s] unfolding trimmed_def padded_def whitespace_def by blast

lemma strip_padded:
  assumes "padded x y"
  shows "strip x = strip y"
proof -
  from assms obtain l r where l: "whitespace l" and r: "whitespace r" and x: "x = l @ y @ r"
    unfolding padded_def by blast
  from trimmed_strip [of y] obtain l' r' where y: "y = l' @ strip y @ r'"
    and l': "\<forall>c \<in> set l'. isspace c" and r': "\<forall>c \<in> set r'. isspace c"
    and t: "strip y = [] \<or> \<not> isspace (hd (strip y)) \<and> \<not> isspace (last (strip y))"
    unfolding trimmed_def by blast
  from x y have "x = (l @ l') @ strip y @ (r' @ r)" by simp
  moreover from l l' have "\<forall>c \<in> set (l @ l'). isspace c" by (auto simp: whitespace_def)
  moreover from r r' have "\<forall>c \<in> set (r' @ r). isspace c" by (auto simp: whitespace_def)
  ultimately have "trimmed x (strip y)" using t unfolding trimmed_def by blast
  then show ?thesis by (simp add: trimmed_iff)
qed

lemma padded_lstrip: "padded s (lstrip s)"
proof -
  have "s = takeWhile isspace s @ lstrip s @ []" by (simp add: lstrip_def)
  moreover have "whitespace (takeWhile isspace s)"
    by (auto simp: whitespace_def dest: set_takeWhileD)
  moreover have "whitespace []" by (simp add: whitespace_def)
  ultimately show ?thesis unfolding padded_def by blast
qed

lemma padded_rstrip: "padded s (rstrip s)"
proof -
  let ?r = "rev (takeWhile isspace (rev s))"
  have "rev s = takeWhile isspace (rev s) @ dropWhile isspace (rev s)" by simp
  then have "s = rstrip s @ ?r" unfolding rstrip_def by (metis rev_append rev_rev_ident)
  then have "s = [] @ rstrip s @ ?r" by simp
  moreover have "whitespace ?r" by (auto simp: whitespace_def dest: set_takeWhileD)
  moreover have "whitespace []" by (simp add: whitespace_def)
  ultimately show ?thesis unfolding padded_def by blast
qed

lemma padded_trans: "padded x y \<Longrightarrow> padded y z \<Longrightarrow> padded x z"
proof -
  assume "padded x y" and "padded y z"
  then obtain l r l' r' where "whitespace l" "whitespace r" "x = l @ y @ r"
    "whitespace l'" "whitespace r'" "y = l' @ z @ r'"
    unfolding padded_def by blast
  then have "whitespace (l @ l')" "whitespace (r' @ r)" "x = (l @ l') @ z @ (r' @ r)"
    by (auto simp: whitespace_def)
  then show ?thesis unfolding padded_def by blast
qed

lemma occurrence_after_whitespace:
  assumes "whitespace l" and "l @ y = pre @ d @ post" and "d \<noteq> []" and "\<not> isspace (hd d)"
  shows "\<exists>pre'. pre = l @ pre' \<and> y = pre' @ d @ post"
  using assms(1,2)
proof (induction l arbitrary: pre)
  case Nil
  then show ?case by simp
next
  case (Cons a l)
  from Cons.prems(1) have a: "isspace a" and l: "whitespace l" by (simp_all add: whitespace_def)
  have "pre \<noteq> []"
  proof
    assume "pre = []"
    with Cons.prems(2) assms(3) have "hd d = a" by (cases d) auto
    with a assms(4) show False by simp
  qed
  then obtain pre0 where p: "pre = a # pre0" using Cons.prems(2) by (cases pre) auto
  with Cons.prems(2) have "l @ y = pre0 @ d @ post" by simp
  from Cons.IH [OF l this] p show ?case by auto
qed

lemma occurrence_before_whitespace:
  assumes "whitespace r" and "y @ r = pre @ d @ post" and "d \<noteq> []" and "\<not> isspace (last d)"
  shows "\<exists>post'. post = post' @ r \<and> y = pre @ d @ post'"
proof -
  from assms(1) have "whitespace (rev r)" by (simp add: whitespace_def)
  moreover from assms(2) have "rev r @ rev y = rev post @ rev d @ rev pre"
    by (metis append.assoc rev_append)
  moreover from assms(3) have "rev d \<noteq> []" by simp
  moreover from assms(3,4) have "\<not> isspace (hd (rev d))" by (simp add: hd_rev)
  ultimately obtain p where p: "rev post = rev r @ p" and y: "rev y = p @ rev d @ rev pre"
    using occurrence_after_whitespace by blast
  from p have "post = rev p @ r" by (metis rev_append rev_rev_ident)
  moreover from y have "y = pre @ d @ rev p" by (metis append.assoc rev_append rev_rev_ident)
  ultimately show ?thesis by blast
qed

lemma assistant_delim_shape:
  "assistant_delim \<noteq> []" "\<not> isspace (hd assistant_delim)" "\<not> isspace (last assistant_delim)"
  by (simp_all add: assistant_delim_def ascii_def isspace_def)

lemma first_occurrence_unique:
  assumes "first_occurrence pat b s" and "split_first pat s = Some (b0, a0)"
  shows "b = b0 \<and> s = b @ pat @ a0"
proof -
  from assms(1) obtain a where "split_first pat s = Some (b, a)"
    by (auto simp: first_occurrence_iff)
  with assms(2) have "b = b0" by simp
  with split_first_decomp [OF assms(2)] show ?thesis by simp
qed

lemma reply_of_padded:
  assumes "padded x y"
  shows "reply_of x out \<longleftrightarrow>
     out = (case split_first assistant_delim y of
              Some (before, after) \<Rightarrow> strip (dropWhile isspace after)
            | None \<Rightarrow> strip y)"
proof -
  from assms obtain l r where l: "whitespace l" and r: "whitespace r" and x: "x = l @ y @ r"
    unfolding padded_def by blast
  show ?thesis
  proof (cases "split_first assistant_delim x")
    case None
    have nox: "\<not> (\<exists>pre post. x = pre @ assistant_delim @ post)"
      using split_first_None [OF None] by blast
    have "split_first assistant_delim y = None"
    proof (rule ccontr)
      assume "split_first assistant_delim y \<noteq> None"
      then obtain b a where "split_first assistant_delim y = Some (b, a)" by auto
      from split_first_decomp [OF this] x have "x = (l @ b) @ assistant_delim @ (a @ r)" by simp
      with nox show False by blast
    qed
    moreover from nox have "reply_of x out \<longleftrightarrow> out = strip x"
      unfolding reply_of_def first_occurrence_def by (auto simp: trimmed_iff)
    moreover from assms have "strip x = strip y" by (rule strip_padded)
    ultimately show ?thesis by simp
  next
    case (Some p)
    obtain pre post where p: "p = (pre, post)" by (cases p)
    from Some p have sf: "split_first assistant_delim x = Some (pre, post)" by simp
    note d = split_first_decomp [OF sf]
    have fo: "first_occurrence assistant_delim pre x"
      using sf by (auto simp: first_occurrence_iff)
    have "reply_of x out \<longleftrightarrow> out = strip post"
    proof
      assume "reply_of x out"
      then obtain pre2 post2 where "first_occurrence assistant_delim pre2 x"
        and x2: "x = pre2 @ assistant_delim @ post2" and t: "trimmed post2 out"
        using d unfolding reply_of_def by blast
      from first_occurrence_unique [OF this(1) sf] x2 have "post2 = post" by simp
      with t show "out = strip post" by (simp add: trimmed_iff)
    next
      assume "out = strip post"
      with fo d show "reply_of x out" unfolding reply_of_def by (auto simp: trimmed_iff)
    qed
    moreover have "(case split_first assistant_delim y of
              Some (before, after) \<Rightarrow> strip (dropWhile isspace after)
            | None \<Rightarrow> strip y) = strip post"
    proof -
      from d x have "l @ (y @ r) = pre @ assistant_delim @ post" by simp
      from occurrence_after_whitespace [OF l this assistant_delim_shape(1,2)]
      obtain pre' where pre: "pre = l @ pre'" and yr: "y @ r = pre' @ assistant_delim @ post"
        by blast
      from occurrence_before_whitespace [OF r yr assistant_delim_shape(1,3)]
      obtain post' where post: "post = post' @ r" and y: "y = pre' @ assistant_delim @ post'"
        by blast
      have "first_occurrence assistant_delim pre' y"
        unfolding first_occurrence_def
      proof (intro conjI allI impI)
        from y show "\<exists>a. y = pre' @ assistant_delim @ a" by blast
      next
        fix b' a' assume "y = b' @ assistant_delim @ a'"
        with x have "x = (l @ b') @ assistant_delim @ (a' @ r)" by simp
        from split_first_leftmost [OF sf this] pre show "length pre' \<le> length b'" by simp
      qed
      then obtain a where sfy: "split_first assistant_delim y = Some (pre', a)"
        by (auto simp: first_occurrence_iff)
      from split_first_decomp [OF sfy] y have "a = post'" by simp
      with sfy have sfy': "split_first assistant_delim y = Some (pre', post')" by simp
      have "padded post (lstrip post')"
      proof -
        have "padded post post'" using post r unfolding padded_def
          by (metis append_Nil empty_iff list.set(1) whitespace_def)
        from this padded_lstrip [of post'] show ?thesis by (rule padded_trans)
      qed
      then have "strip post = strip (lstrip post')" by (rule strip_padded)
      with sfy' show ?thesis by (simp add: lstrip_def)
    qed
    ultimately show ?thesis by simp
  qed
qed

lemma rstrip_append:
  assumes "a \<noteq> []" and "\<not> isspace (last a)"
  shows "rstrip (a @ b) = a @ rstrip b"
proof (cases "\<forall>c \<in> set (rev b). isspace c")
  case True
  then have "dropWhile isspace (rev b @ rev a) = dropWhile isspace (rev a)"
    by (intro dropWhile_append2) auto
  also from assms have "\<dots> = rev a" by (cases a rule: rev_cases) simp_all
  finally have "rstrip (a @ b) = a" by (simp add: rstrip_def)
  moreover from True have "dropWhile isspace (rev b) = []" by (metis dropWhile_eq_Nil_conv)
  then have "rstrip b = []" by (simp add: rstrip_def)
  ultimately show ?thesis by simp
next
  case False
  then obtain c where "c \<in> set (rev b)" and "\<not> isspace c" by blast
  then have "dropWhile isspace (rev b @ rev a) = dropWhile isspace (rev b) @ rev a"
    by (rule dropWhile_append1)
  then show ?thesis by (simp add: rstrip_def)
qed

lemma lstrip_whitespace_Cons:
  "whitespace ws \<Longrightarrow> \<not> isspace c \<Longrightarrow> dropWhile isspace (ws @ c # rest) = c # rest"
  by (simp add: whitespace_def dropWhile_append2)

lemma response_marker_shape:
  "response_marker \<noteq> []" "\<not> isspace (hd response_marker)" "\<not> isspace (last response_marker)"
  "\<not> isspace brain"
  by (simp_all add: response_marker_def ascii_def isspace_def brain_def)

lemma re_sub_marker_present:
  assumes "marker_split text body"
  shows "re_sub_marker (strip text) = lstrip (rstrip body)"
proof -
  from assms obtain ws0 ws1 where w0: "whitespace ws0" and w1: "whitespace ws1"
    and t: "text = ws0 @ [brain] @ ws1 @ response_marker @ body"
    unfolding marker_split_def by blast
  have r: "response_marker = 0x52 # ascii ''esponse:''"
    by (simp add: response_marker_def ascii_def)
  have h: "\<not> isspace 0x52" by (simp add: isspace_def)
  have "lstrip text = brain # ws1 @ response_marker @ body"
    unfolding t lstrip_def using lstrip_whitespace_Cons [OF w0 response_marker_shape(4)] by simp
  then have "strip text = rstrip ((brain # ws1 @ response_marker) @ body)"
    by (simp add: strip_def)
  also have "\<dots> = (brain # ws1 @ response_marker) @ rstrip body"
    using response_marker_shape(1,3) by (intro rstrip_append) simp_all
  finally have s: "strip text = brain # (ws1 @ response_marker @ rstrip body)" by simp
  have d: "dropWhile isspace (ws1 @ response_marker @ rstrip body) = response_marker @ rstrip body"
    unfolding r using lstrip_whitespace_Cons [OF w1 h] by simp
  show ?thesis unfolding s re_sub_marker_def by (simp add: d lstrip_def)
qed

lemma re_sub_marker_absent:
  assumes "\<not> (\<exists>body. marker_split text body)"
  shows "re_sub_marker (strip text) = strip text"
proof (rule ccontr)
  assume n: "re_sub_marker (strip text) \<noteq> strip text"
  then obtain cs where s: "strip text = brain # cs"
    and p: "prefix response_marker (dropWhile isspace cs)"
    unfolding re_sub_marker_def by (auto split: list.splits if_splits)
  from p obtain rest where "dropWhile isspace cs = response_marker @ rest"
    by (auto simp: prefix_def)
  then have cs: "cs = takeWhile isspace cs @ response_marker @ rest"
    by (metis takeWhile_dropWhile_id)
  from padded_strip [of "text"] obtain l r where l: "whitespace l" and r: "whitespace r"
    and t: "text = l @ strip text @ r" unfolding padded_def by blast
  from t s cs have "text = l @ [brain] @ takeWhile isspace cs @ response_marker @ (rest @ r)"
    by (metis append.assoc append_Cons append_Nil)
  moreover have "whitespace (takeWhile isspace cs)"
    by (auto simp: whitespace_def dest: set_takeWhileD)
  ultimately have "marker_split text (rest @ r)" using l unfolding marker_split_def by blast
  with assms show False by blast
qed

lemma extract_reply_spec_iff:
  "extract_reply_spec text out \<longleftrightarrow> out = extract_assistant_response text"
proof (cases "\<exists>body. marker_split text body")
  case True
  have *: "reply_of body out \<longleftrightarrow> out = extract_assistant_response text"
    if m: "marker_split text body" for body
  proof -
    have "padded body (lstrip (rstrip body))"
      using padded_rstrip [of body] padded_lstrip [of "rstrip body"] by (rule padded_trans)
    from reply_of_padded [OF this] re_sub_marker_present [OF m] show ?thesis
      by (simp add: extract_assistant_response_def Let_def)
  qed
  from True show ?thesis
    unfolding extract_reply_spec_def marker_stripped_def using * by blast
next
  case False
  from reply_of_padded [OF padded_strip [of "text"]] re_sub_marker_absent [OF False]
  have "reply_of text out \<longleftrightarrow> out = extract_assistant_response text"
    by (simp add: extract_assistant_response_def Let_def)
  with False show ?thesis
    unfolding extract_reply_spec_def marker_stripped_def by blast
qed

text \<open>
  Claim C8. For every input, \<open>extract_assistant_response\<close> returns exactly the reply the
  specification describes: the leading marker removed if the text starts with it, then
  everything after the first \<^verbatim>\<open>Assistant:\<close>, trimmed, or the trimmed marker-stripped text
  when the delimiter does not occur. The example of the specification gives \<^verbatim>\<open>Yes.\<close>
\<close>

theorem extract_assistant_response_spec:
  "(extract_reply_spec text out \<longleftrightarrow> out = extract_assistant_response text) \<and>
   extract_assistant_response ([0x1F9E0] @ ascii '' Response: User: ... Assistant: Yes.'')
     = ascii ''Yes.''"
proof
  show "extract_reply_spec text out \<longleftrightarrow> out = extract_assistant_response text"
    by (rule extract_reply_spec_iff)
  show "extract_assistant_response ([0x1F9E0] @ ascii '' Response: User: ... Assistant: Yes.'')
     = ascii ''Yes.''"
    by (simp add: extract_assistant_response_def re_sub_marker_def brain_def
        response_marker_def assistant_delim_def strip_def lstrip_def rstrip_def isspace_def
        ascii_def Let_def)
qed

theorem extract_assistant_response_spec_witness:
  "extract_reply_spec
     (ascii ''  '' @ [0x1F9E0] @ ascii ''Response:\<newline>User: q Assistant: A1 Assistant: A2 \<newline>'')
     (ascii ''A1 Assistant: A2'') \<and>
   extract_reply_spec (ascii '' assistant: no delimiter here '')
     (ascii ''assistant: no delimiter here'')"
proof -
  let ?t1 = "ascii ''  '' @ [0x1F9E0] @ ascii ''Response:\<newline>User: q Assistant: A1 Assistant: A2 \<newline>''"
  let ?t2 = "ascii '' assistant: no delimiter here ''"
  have 1: "extract_assistant_response ?t1 = ascii ''A1 Assistant: A2''"
    by (simp add: extract_assistant_response_def re_sub_marker_def brain_def
        response_marker_def assistant_delim_def strip_def lstrip_def rstrip_def isspace_def
        ascii_def Let_def)
  have 2: "extract_assistant_response ?t2 = ascii ''assistant: no delimiter here''"
    by (simp add: extract_assistant_response_def re_sub_marker_def brain_def
        response_marker_def assistant_delim_def strip_def lstrip_def rstrip_def isspace_def
        ascii_def Let_def)
  from extract_assistant_response_spec [of ?t1 "ascii ''A1 Assistant: A2''"]
    extract_assistant_response_spec [of ?t2 "ascii ''assistant: no delimiter here''"] 1 2
  show ?thesis by simp
qed

end
